theory Spec2Isabelle
  imports Complex_Main "HOL-Library.Monad_Syntax"
begin

section \<open>SliderCam: a shallow embedding of Video\_slide\_stepper.ino\<close>

text \<open>
  The sketch drives a stepper motor from a timer interrupt while a polling loop watches
  the keypad, fires the camera and prints progress dots. The globals that the functions
  modelled here read or write become one record, every hardware call (pins, timer, display,
  blocking delay) appends an event to a trace, and the two things the sketch cannot
  control, the keypad voltage and the moments at which the timer interrupt fires, are read
  from an environment.

  Numbers. The sketch is written for the AVR Arduino boards (the MsTimer2 library; the
  header comment speaks of 8 kB of SRAM; the source writes \<open>1000L\<close> where a product must
  not be computed in \<open>int\<close>), where \<open>int\<close> has 16 bits. Values of type \<open>int\<close> are modelled
  by \<open>int\<close>, with the reduction to the 16-bit two's complement range written out where a
  result is not bounded by a guard. Values of type \<open>double\<close> are modelled by exact
  rationals; a quotient whose divisor is zero (an IEEE infinity or NaN) is \<open>None\<close>.
\<close>

subsection \<open>Machine arithmetic\<close>

definition int16 :: "int \<Rightarrow> int" where
  "int16 x = (x + 32768) mod 65536 - 32768"

text \<open>The operator \<open>%\<close> of C++: the remainder of the division that truncates towards zero.\<close>

definition c_rem :: "int \<Rightarrow> int \<Rightarrow> int" where
  "c_rem a b = sgn a * (\<bar>a\<bar> mod \<bar>b\<bar>)"

text \<open>Conversion of a \<open>double\<close> to \<open>int\<close>: the fractional part is discarded.\<close>

definition trunc :: "rat \<Rightarrow> int" where
  "trunc q = (if 0 \<le> q then \<lfloor>q\<rfloor> else \<lceil>q\<rceil>)"

text \<open>Division of two \<open>double\<close> values.\<close>

definition fdiv :: "rat \<Rightarrow> rat \<Rightarrow> rat option" where
  "fdiv a b = (if b = 0 then None else Some (a / b))"

subsection \<open>Constants\<close>

definition stp :: int where "stp = 11"
definition dir :: int where "dir = 12"
definition trig :: int where "trig = 13"

definition MAX_TRAVEL_DISTANCE :: int where "MAX_TRAVEL_DISTANCE = 1300"

definition btnUp :: int where "btnUp = 0"
definition btnDn :: int where "btnDn = 1"
definition btnL :: int where "btnL = 2"
definition btnR :: int where "btnR = 3"
definition btnSel :: int where "btnSel = 4"
definition btnNone :: int where "btnNone = 5"

definition NUM_DISTANCE_DIGITS :: int where "NUM_DISTANCE_DIGITS = 4"
definition NUM_DURATION_DIGITS :: int where "NUM_DURATION_DIGITS = 6"
definition NUM_STEPS_DIGITS :: int where "NUM_STEPS_DIGITS = 4"

definition DEBOUNCE_TIME :: int where "DEBOUNCE_TIME = 10"

definition up_state :: int where "up_state = 0"
definition timer_done_state :: int where "timer_done_state = 1"
definition wait_for_up_state :: int where "wait_for_up_state = 2"

definition shutterDuration :: int where "shutterDuration = 2"
definition dotSteps :: int where "dotSteps = 16"

lemmas button_defs = btnUp_def btnDn_def btnL_def btnR_def btnSel_def btnNone_def

subsection \<open>Decoding a digit array\<close>

text \<open>
  The loop of \<open>getIntFromDigits\<close>, from \<open>i = num_digits - 1\<close> down to \<open>0\<close>. Both
  \<open>value\<close> and \<open>power\<close> are \<open>int\<close> variables, so each assignment stores a 16-bit value.
  Every call of the sketch passes an array together with its length.
\<close>

function getIntFromDigits_loop :: "int list \<Rightarrow> int \<Rightarrow> int \<Rightarrow> int \<Rightarrow> int" where
  "getIntFromDigits_loop digits i val pw =
     (if 0 \<le> i
      then getIntFromDigits_loop digits (i - 1)
             (int16 (val + int16 (pw * digits ! nat i))) (int16 (pw * 10))
      else val)"
  by pat_completeness auto
termination
  by (relation "measure (\<lambda>(digits, i, val, pw). nat (i + 1))") auto

definition getIntFromDigits :: "int list \<Rightarrow> int \<Rightarrow> int" where
  "getIntFromDigits digits num_digits = getIntFromDigits_loop digits (num_digits - 1) 0 1"

text \<open>
  The re-encoding that the round-trip property speaks of: the \<open>n\<close> base-10 digits of
  \<open>v\<close>, padded with zeros, most significant digit first.
\<close>

fun digits_of_int :: "nat \<Rightarrow> int \<Rightarrow> int list" where
  "digits_of_int 0 v = []"
| "digits_of_int (Suc n) v = digits_of_int n (v div 10) @ [v mod 10]"

definition fits_in_digits :: "nat \<Rightarrow> int \<Rightarrow> bool" where
  "fits_in_digits n v = (0 \<le> v \<and> v < 10 ^ n)"

subsection \<open>State, trace and environment\<close>

text \<open>What the sketch does to the hardware: pin writes, blocking delays, timer and display calls.\<close>

datatype event =
    DigitalWrite int bool
  | Delay int
  | TimerSet "rat option"
  | TimerStart
  | TimerStop
  | LcdSetCursor int int
  | LcdPrintInt int
  | LcdPrintStr string

text \<open>
  The environment: \<open>adc env k\<close> is the value of the \<open>k\<close>-th call of \<open>analogRead(0)\<close>, and
  \<open>irq env k\<close> is the number of timer periods that elapse in the \<open>k\<close>-th stretch of code
  between two reads of the shared counter.
\<close>

record env =
  adc :: "nat \<Rightarrow> int"
  irq :: "nat \<Rightarrow> nat"

record state =
  prevButton :: int
  currentCursorPos :: int
  currentDistance :: "int list"
  LCDLine2Value :: "int list"
  currentChar :: int
  currentDistanceInt :: rat
  currentDurationInt :: rat
  currentStepsInt :: rat
  travelDir :: int
  totalMotorSteps :: rat
  pulseDelay :: "rat option"
  intervalDistance :: int
  currentStep :: int
  dotDistance :: int
  timerRunning :: bool
  trace :: "event list"
  reads :: nat
  windows :: nat

text \<open>The newest event is the head of the trace.\<close>

definition emit :: "event \<Rightarrow> state \<Rightarrow> state" where
  "emit e s = s\<lparr>trace := e # trace s\<rparr>"

text \<open>
  The globals as the sketch initialises them. The literals \<open>0100\<close> and \<open>000010\<close> of the
  source start with a zero and are octal: 64 and 8.
\<close>

definition initial_state :: state where
  "initial_state =
     \<lparr>prevButton = 1, currentCursorPos = 0, currentDistance = [0, 1, 0, 0],
      LCDLine2Value = [0, 0, 0, 0, 0, 0], currentChar = 0,
      currentDistanceInt = 64, currentDurationInt = 8, currentStepsInt = 0,
      travelDir = 0, totalMotorSteps = 0, pulseDelay = Some 0, intervalDistance = 0,
      currentStep = 0, dotDistance = 0, timerRunning = False, trace = [],
      reads = 0, windows = 0\<rparr>"

subsection \<open>Buttons\<close>

definition getButtonfromRawData :: "env \<Rightarrow> state \<Rightarrow> int \<times> state" where
  "getButtonfromRawData env s =
     (let adcIn = adc env (reads s);
          s' = s\<lparr>reads := Suc (reads s)\<rparr>
      in if adcIn > 1000 then (btnNone, s')
         else if adcIn < 50 then (btnR, s')
         else if adcIn < 250 then (btnUp, s')
         else if adcIn < 450 then (btnDn, s')
         else if adcIn < 650 then (btnL, s')
         else if adcIn < 850 then (btnSel, s')
         else (btnNone, s'))"

definition readLcdButtons :: "env \<Rightarrow> state \<Rightarrow> int \<times> state" where
  "readLcdButtons env s =
     (let (b, s1) = getButtonfromRawData env s
      in if b = prevButton s1 then (prevButton s1, s1)
         else (let s2 = emit (Delay DEBOUNCE_TIME) s1;
                   (b2, s3) = getButtonfromRawData env s2
               in (b2, s3\<lparr>prevButton := b2\<rparr>)))"

text \<open>
  The state machine of \<open>getKeyClick\<close>. The loop has no exit but the \<open>return\<close>, so it is a
  partial function: \<open>None\<close> stands for a call that never returns. The locals \<open>btnVal\<close> and
  \<open>newbtnVal\<close> are not initialised in the source; \<open>btnVal\<close> is written in \<open>up_state\<close>,
  the state the machine starts in, before it is read.
\<close>

partial_function (option) getKeyClick_loop ::
  "env \<Rightarrow> int \<Rightarrow> int \<Rightarrow> state \<Rightarrow> (int \<times> state) option" where
  "getKeyClick_loop env debounce_fsm_state_var btnVal s =
     (if debounce_fsm_state_var = up_state then
        (let (b, s') = readLcdButtons env s
         in if b \<noteq> btnNone
            then getKeyClick_loop env timer_done_state b (emit (Delay DEBOUNCE_TIME) s')
            else getKeyClick_loop env debounce_fsm_state_var b s')
      else if debounce_fsm_state_var = timer_done_state then
        (let (newbtnVal, s') = readLcdButtons env s
         in if newbtnVal = btnVal
            then getKeyClick_loop env wait_for_up_state btnVal s'
            else getKeyClick_loop env up_state btnVal s')
      else if debounce_fsm_state_var = wait_for_up_state then
        (let (newbtnVal, s') = readLcdButtons env s
         in if newbtnVal = btnNone then Some (btnVal, s')
            else if newbtnVal \<noteq> btnVal
            then getKeyClick_loop env up_state btnVal s'
            else getKeyClick_loop env debounce_fsm_state_var btnVal s')
      else getKeyClick_loop env debounce_fsm_state_var btnVal s)"

declare getKeyClick_loop.simps [code]

definition getKeyClick :: "env \<Rightarrow> state \<Rightarrow> (int \<times> state) option" where
  "getKeyClick env s = getKeyClick_loop env up_state 0 s"

subsection \<open>Editing a value\<close>

definition adjustDigit :: "int \<Rightarrow> int \<Rightarrow> state \<Rightarrow> int \<times> state" where
  "adjustDigit x0 d s =
     (let x1 = (if d = 0 \<and> x0 > 0 then x0 - 1 else x0);
          x2 = (if d = 1 \<and> x1 < 9 then x1 + 1 else x1);
          s1 = emit (LcdSetCursor (currentCursorPos s) 1) s;
          s2 = emit (LcdPrintInt x2) s1;
          s3 = s2\<lparr>currentChar := x2\<rparr>
      in (currentChar s3, s3))"

text \<open>\<open>readFromLCDLine2(to, num_digits)\<close>: the loop \<open>to[i] = LCDLine2Value[i]\<close>, returning the
  array written to. Every call of the sketch passes an array of \<open>num_digits\<close> entries, and
  \<open>LCDLine2Value\<close> has six.\<close>

definition readFromLCDLine2 :: "int list \<Rightarrow> int \<Rightarrow> state \<Rightarrow> int list" where
  "readFromLCDLine2 to num_digits s =
     fold (\<lambda>i arr. arr[i := LCDLine2Value s ! i]) [0..<nat num_digits] to"

text \<open>
  \<open>getUserInputValue\<close> handles one key click after the other until Select is clicked. The
  array accesses are at \<open>currentCursorPos\<close>, which the caller has set to \<open>0\<close> and which the
  loop keeps between \<open>0\<close> and \<open>numDigits - 1\<close>.
\<close>

partial_function (option) getUserInputValue_loop ::
  "env \<Rightarrow> int \<Rightarrow> state \<Rightarrow> state option" where
  "getUserInputValue_loop env numDigits s =
     getKeyClick env s \<bind> (\<lambda>(btnVal, s1).
       if btnVal = btnUp then
         (let s2 = s1\<lparr>currentChar := LCDLine2Value s1 ! nat (currentCursorPos s1)\<rparr>;
              (r, s3) = adjustDigit (currentChar s2) 1 s2;
              s4 = s3\<lparr>LCDLine2Value :=
                        (LCDLine2Value s3)[nat (currentCursorPos s3) := currentChar s3]\<rparr>
          in getUserInputValue_loop env numDigits
               (emit (LcdSetCursor (currentCursorPos s4) 1) s4))
       else if btnVal = btnDn then
         (let s2 = s1\<lparr>currentChar := LCDLine2Value s1 ! nat (currentCursorPos s1)\<rparr>;
              (r, s3) = adjustDigit (currentChar s2) 0 s2;
              s4 = s3\<lparr>LCDLine2Value :=
                        (LCDLine2Value s3)[nat (currentCursorPos s3) := currentChar s3]\<rparr>
          in getUserInputValue_loop env numDigits
               (emit (LcdSetCursor (currentCursorPos s4) 1) s4))
       else if btnVal = btnL then
         (let s2 = (if currentCursorPos s1 = 0 then s1
                    else s1\<lparr>currentCursorPos := currentCursorPos s1 - 1\<rparr>)
          in getUserInputValue_loop env numDigits
               (emit (LcdSetCursor (currentCursorPos s2) 1) s2))
       else if btnVal = btnR then
         (let s2 = (if currentCursorPos s1 = numDigits - 1 then s1
                    else s1\<lparr>currentCursorPos := currentCursorPos s1 + 1\<rparr>)
          in getUserInputValue_loop env numDigits
               (emit (LcdSetCursor (currentCursorPos s2) 1) s2))
       else if btnVal = btnSel then Some s1
       else getUserInputValue_loop env numDigits
              (emit (LcdSetCursor (currentCursorPos s1) 1) s1))"

declare getUserInputValue_loop.simps [code]

definition getUserInputValue :: "env \<Rightarrow> int \<Rightarrow> state \<Rightarrow> state option" where
  "getUserInputValue env numDigits s =
     getUserInputValue_loop env numDigits (emit (LcdSetCursor (currentCursorPos s) 1) s)"

text \<open>
  \<open>getDistance\<close>: the editor, then the digits are copied into \<open>currentDistance\<close>, decoded
  into the \<open>double\<close> variable \<open>currentDistanceInt\<close> and compared with the travel limit.
\<close>

definition getDistance :: "env \<Rightarrow> state \<Rightarrow> state option" where
  "getDistance env s =
     getUserInputValue env NUM_DISTANCE_DIGITS s \<bind> (\<lambda>s1.
       let s2 = s1\<lparr>currentDistance := readFromLCDLine2 (currentDistance s1) NUM_DISTANCE_DIGITS s1\<rparr>;
           s3 = s2\<lparr>currentDistanceInt :=
                     of_int (getIntFromDigits (currentDistance s2) NUM_DISTANCE_DIGITS)\<rparr>
       in Some (if currentDistanceInt s3 > of_int MAX_TRAVEL_DISTANCE
                then s3\<lparr>currentDistanceInt := of_int MAX_TRAVEL_DISTANCE\<rparr>
                else s3))"

subsection \<open>The pulse timer and its interrupt handler\<close>

text \<open>
  MsTimer2 is a library outside the sketch. Of it the model keeps what the sketch relies
  on: \<open>set\<close> stores a period, \<open>start\<close> enables the periodic interrupt, \<open>stop\<close> disables it.
\<close>

definition MsTimer2_set :: "rat option \<Rightarrow> state \<Rightarrow> state" where
  "MsTimer2_set ms s = emit (TimerSet ms) s"

definition MsTimer2_start :: "state \<Rightarrow> state" where
  "MsTimer2_start s = (emit TimerStart s)\<lparr>timerRunning := True\<rparr>"

definition MsTimer2_stop :: "state \<Rightarrow> state" where
  "MsTimer2_stop s = (emit TimerStop s)\<lparr>timerRunning := False\<rparr>"

definition stepperDriveUsingTimer :: "state \<Rightarrow> state" where
  "stepperDriveUsingTimer s =
     (let s1 = emit (DigitalWrite stp False) s;
          s2 = emit (DigitalWrite stp True) s1
      in s2\<lparr>currentStep := int16 (currentStep s2 + 1)\<rparr>)"

text \<open>
  One stretch of code during which interrupts may be served: the handler runs once for
  every period that elapses, provided the timer is enabled.
\<close>

definition service :: "env \<Rightarrow> state \<Rightarrow> state" where
  "service env s =
     (let n = irq env (windows s);
          s' = s\<lparr>windows := Suc (windows s)\<rparr>
      in if timerRunning s' then (stepperDriveUsingTimer ^^ n) s' else s')"

subsection \<open>Motion control\<close>

text \<open>The statements of \<open>motionControl\<close> before the loop.\<close>

definition motionControl_setup :: "state \<Rightarrow> state" where
  "motionControl_setup s =
     (let s1 = s\<lparr>currentStep := 0\<rparr>;
          s2 = s1\<lparr>totalMotorSteps := currentDistanceInt s1 * 5\<rparr>;
          s3 = s2\<lparr>pulseDelay := fdiv (1000 * currentDurationInt s2) (totalMotorSteps s2)\<rparr>;
          s4 = (if currentStepsInt s3 > 0
                then s3\<lparr>intervalDistance := trunc (totalMotorSteps s3 / currentStepsInt s3)\<rparr>
                else s3);
          s5 = s4\<lparr>dotDistance := trunc (totalMotorSteps s4 / of_int dotSteps)\<rparr>;
          s6 = (if travelDir s5 = 0 then emit (DigitalWrite dir False) s5
                else if travelDir s5 = 1 then emit (DigitalWrite dir True) s5
                else s5);
          s7 = emit (LcdSetCursor 0 1) s6;
          s8 = MsTimer2_set (pulseDelay s7) s7
      in MsTimer2_start s8)"

text \<open>The block that fires the camera: the timer is stopped, the trigger pin is pulsed, the
  shutter time is waited for, the timer is started again.\<close>

definition fire_camera :: "state \<Rightarrow> state" where
  "fire_camera s =
     (let s1 = MsTimer2_stop s;
          s2 = emit (Delay 20) s1;
          s3 = emit (DigitalWrite trig True) s2;
          s4 = emit (Delay 80) s3;
          s5 = emit (DigitalWrite trig False) s4;
          s6 = emit (Delay (shutterDuration * 1000 - 80)) s5
      in MsTimer2_start s6)"

datatype outcome = Completed | UserCancelled

text \<open>The operator \<open>%\<close> with a zero divisor has no defined result.\<close>

datatype fault = ModuloByZero

datatype step_result = Continue int state | Exit outcome state | Fault fault

text \<open>
  The second half of the loop body, from \<open>if (currentStep != prevStep)\<close> to the test of
  the \<open>while\<close>. Each read of the volatile counter is preceded by a stretch in which the
  handler may have run.
\<close>

definition motionControl_progress :: "env \<Rightarrow> int \<Rightarrow> state \<Rightarrow> step_result" where
  "motionControl_progress env prevStep s =
     (let s1 = service env s
      in if currentStep s1 \<noteq> prevStep then
           (let s2 = service env s1;
                prevStep' = currentStep s2;
                s3 = service env s2
            in if dotDistance s3 = 0 then Fault ModuloByZero
               else (let s4 = (if c_rem (currentStep s3) (dotDistance s3) = 0
                               then emit (LcdPrintStr ''.'') s3 else s3);
                         s5 = service env s4
                     in if of_int (currentStep s5) < totalMotorSteps s5
                        then Continue prevStep' s5 else Exit Completed s5))
         else
           (let s5 = service env (service env (service env s1))
            in if of_int (currentStep s5) < totalMotorSteps s5
               then Continue prevStep s5 else Exit Completed s5))"

text \<open>One pass through the body of the \<open>do ... while\<close> loop.\<close>

definition motionControl_body :: "env \<Rightarrow> int \<Rightarrow> state \<Rightarrow> step_result" where
  "motionControl_body env prevStep s =
     (let (b, s1) = readLcdButtons env s;
          s2 = service env s1
      in if b = btnSel then Exit UserCancelled s2
         else if currentStepsInt s2 > 0 then
           (if intervalDistance s2 = 0 then Fault ModuloByZero
            else if c_rem (currentStep s2) (intervalDistance s2) = 0
            then motionControl_progress env prevStep (fire_camera s2)
            else motionControl_progress env prevStep s2)
         else motionControl_progress env prevStep s2)"

partial_function (option) motionControl_loop ::
  "env \<Rightarrow> int \<Rightarrow> state \<Rightarrow> (fault + outcome \<times> state) option" where
  "motionControl_loop env prevStep s =
     (case motionControl_body env prevStep s of
        Continue prevStep' s' \<Rightarrow> motionControl_loop env prevStep' s'
      | Exit oc s' \<Rightarrow> Some (Inr (oc, s'))
      | Fault f \<Rightarrow> Some (Inl f))"

declare motionControl_loop.simps [code]

text \<open>
  The loop followed by the \<open>MsTimer2::stop()\<close> after it, from any state of the loop;
  \<open>motionControl\<close> enters it after the set-up with \<open>prevStep = 0\<close>.
\<close>

definition motionControl_run ::
  "env \<Rightarrow> int \<Rightarrow> state \<Rightarrow> (fault + outcome \<times> state) option" where
  "motionControl_run env prevStep s =
     (case motionControl_loop env prevStep s of
        None \<Rightarrow> None
      | Some (Inl f) \<Rightarrow> Some (Inl f)
      | Some (Inr (oc, s')) \<Rightarrow> Some (Inr (oc, MsTimer2_stop (service env s'))))"

definition motionControl :: "env \<Rightarrow> state \<Rightarrow> (fault + outcome \<times> state) option" where
  "motionControl env s = motionControl_run env 0 (motionControl_setup s)"

text \<open>
  The loop cut off after \<open>n\<close> passes: what the first \<open>n\<close> passes lead to, whether or not
  the loop ever ends.
\<close>

fun motionControl_passes :: "env \<Rightarrow> nat \<Rightarrow> int \<Rightarrow> state \<Rightarrow> step_result" where
  "motionControl_passes env 0 prevStep s = Continue prevStep s"
| "motionControl_passes env (Suc n) prevStep s =
     (case motionControl_body env prevStep s of
        Continue prevStep' s' \<Rightarrow> motionControl_passes env n prevStep' s'
      | Exit oc s' \<Rightarrow> Exit oc s'
      | Fault f \<Rightarrow> Fault f)"

text \<open>Observations of a trace: camera triggers and progress dots.\<close>

definition shutter_count :: "event list \<Rightarrow> nat" where
  "shutter_count tr = length (filter (\<lambda>e. e = DigitalWrite trig True) tr)"

definition dot_count :: "event list \<Rightarrow> nat" where
  "dot_count tr = length (filter (\<lambda>e. e = LcdPrintStr ''.'') tr)"

text \<open>The number a digit array denotes, most significant digit first.\<close>

fun decimal_value :: "int list \<Rightarrow> int" where
  "decimal_value [] = 0"
| "decimal_value (d # ds) = d * 10 ^ length ds + decimal_value ds"

subsection \<open>Notions used in the statements\<close>

text \<open>One run of the handler, seen from the counter.\<close>

definition inc16 :: "int \<Rightarrow> int" where "inc16 c = int16 (c + 1)"

text \<open>Two states with the same motion plan.\<close>

definition same_plan :: "state \<Rightarrow> state \<Rightarrow> bool" where
  "same_plan s t =
     (totalMotorSteps t = totalMotorSteps s \<and> currentStepsInt t = currentStepsInt s \<and>
      dotDistance t = dotDistance s \<and> intervalDistance t = intervalDistance s \<and>
      pulseDelay t = pulseDelay s)"

text \<open>The number of timer periods that elapse in \<open>n\<close> consecutive stretches, from stretch \<open>w\<close> on.\<close>

definition pass_ticks :: "env \<Rightarrow> nat \<Rightarrow> nat \<Rightarrow> nat" where
  "pass_ticks env w n = sum_list (map (\<lambda>j. irq env (w + j)) [0..<n])"

text \<open>The voltages that \<open>getButtonfromRawData\<close> decodes as Select: the raw Select level.\<close>

definition select_level :: "int \<Rightarrow> bool" where
  "select_level v = (650 \<le> v \<and> v < 850)"

text \<open>How a pass of the loop ends.\<close>

datatype verdict = Goes_on | Ends outcome | Fails fault

fun verdict_of :: "step_result \<Rightarrow> verdict" where
  "verdict_of (Continue p s) = Goes_on"
| "verdict_of (Exit oc s) = Ends oc"
| "verdict_of (Fault f) = Fails f"

text \<open>Two states with the same cursor position, edit buffer and distance digits.\<close>

definition same_entry :: "state \<Rightarrow> state \<Rightarrow> bool" where
  "same_entry s t =
     (currentCursorPos t = currentCursorPos s \<and> LCDLine2Value t = LCDLine2Value s \<and>
      currentDistance t = currentDistance s)"

text \<open>
  The state of an editor of \<open>numDigits\<close> digits as \<open>processSecondaryLevelMenu\<close> and
  \<open>refreshLCD\<close> leave it: the cursor is on one of the digits, and the edit buffer holds
  decimal digits.
\<close>

definition entry_ok :: "int \<Rightarrow> state \<Rightarrow> bool" where
  "entry_ok numDigits s =
     (0 \<le> currentCursorPos s \<and> currentCursorPos s < numDigits \<and>
      numDigits \<le> int (length (LCDLine2Value s)) \<and>
      (\<forall>d \<in> set (LCDLine2Value s). 0 \<le> d \<and> d \<le> 9))"

subsection \<open>Inputs used for evaluation\<close>

text \<open>Select is held for three samples and then released; no interrupt is served.\<close>

definition env_select_click :: env where
  "env_select_click = \<lparr>adc = (\<lambda>k. if k < 3 then 741 else 1023), irq = (\<lambda>k. 0)\<rparr>"

text \<open>
  A keypad on which the buttons whose voltages are listed are clicked one after the other:
  each click holds the voltage for three samples and releases it for two. No interrupt is
  served.
\<close>

definition env_clicks :: "int list \<Rightarrow> env" where
  "env_clicks bs =
     \<lparr>adc = (\<lambda>k. if k div 5 < length bs \<and> k mod 5 < 3 then bs ! (k div 5) else 1023),
      irq = (\<lambda>k. 0)\<rparr>"

text \<open>The globals at the start of a run for which the given distance, duration and step
  count have been committed.\<close>

definition run_state :: "rat \<Rightarrow> rat \<Rightarrow> rat \<Rightarrow> state" where
  "run_state distance duration steps =
     initial_state\<lparr>currentDistanceInt := distance, currentDurationInt := duration,
       currentStepsInt := steps\<rparr>"

text \<open>The keypad is idle, and one timer period elapses during the poll of each pass.\<close>

definition env_idle_ticking :: env where
  "env_idle_ticking = \<lparr>adc = (\<lambda>k. 1023), irq = (\<lambda>k. if k mod 5 = 0 then 1 else 0)\<rparr>"

text \<open>The keypad is idle, and no timer period elapses during the first two passes.\<close>

definition env_quiet_start :: env where
  "env_quiet_start = \<lparr>adc = (\<lambda>k. 1023), irq = (\<lambda>k. if k < 10 then 0 else 1)\<rparr>"

text \<open>Select is held down; one timer period elapses in every stretch.\<close>

definition env_select_held :: env where
  "env_select_held = \<lparr>adc = (\<lambda>k. 741), irq = (\<lambda>k. 1)\<rparr>"

text \<open>
  A run as \<open>getGo\<close> starts it: the click on Select that led there has been released, so
  the button reported last is \<open>btnNone\<close>, and the set-up of \<open>motionControl\<close> is done.
\<close>

definition started_run :: "rat \<Rightarrow> rat \<Rightarrow> rat \<Rightarrow> state" where
  "started_run distance duration steps =
     motionControl_setup ((run_state distance duration steps)\<lparr>prevButton := btnNone\<rparr>)"

text \<open>The first sample is in the Select range, every later sample is idle; no timer period
  elapses.\<close>

definition env_select_glitch :: env where
  "env_select_glitch = \<lparr>adc = (\<lambda>k. if k = 0 then 741 else 1023), irq = (\<lambda>k. 0)\<rparr>"

section \<open>Properties\<close>

subsection \<open>Key clicks\<close>

lemma getButtonfromRawData_range:
  "fst (getButtonfromRawData env s) \<in> {btnUp, btnDn, btnL, btnR, btnSel, btnNone}"
  by (simp add: getButtonfromRawData_def Let_def)

lemma readLcdButtons_range:
  "fst (readLcdButtons env s) \<in> {btnUp, btnDn, btnL, btnR, btnSel, btnNone}"
proof -
  obtain b s1 where g1: "getButtonfromRawData env s = (b, s1)"
    by (cases "getButtonfromRawData env s")
  obtain b2 s3 where g2: "getButtonfromRawData env (emit (Delay DEBOUNCE_TIME) s1) = (b2, s3)"
    by (cases "getButtonfromRawData env (emit (Delay DEBOUNCE_TIME) s1)")
  from getButtonfromRawData_range [of env s] g1
  have b: "b \<in> {btnUp, btnDn, btnL, btnR, btnSel, btnNone}" by simp
  from getButtonfromRawData_range [of env "emit (Delay DEBOUNCE_TIME) s1"] g2
  have b2: "b2 \<in> {btnUp, btnDn, btnL, btnR, btnSel, btnNone}" by simp
  show ?thesis
    using b b2 by (auto simp add: readLcdButtons_def g1 g2 Let_def)
qed

lemma getKeyClick_loop_button:
  assumes "getKeyClick_loop env st btnVal s = Some r"
  shows "(st \<noteq> up_state \<longrightarrow> btnVal \<in> {btnUp, btnDn, btnL, btnR, btnSel}) \<longrightarrow>
     fst r \<in> {btnUp, btnDn, btnL, btnR, btnSel}"
proof (rule getKeyClick_loop.raw_induct
    [where P = "\<lambda>env st btnVal s r.
       (st \<noteq> up_state \<longrightarrow> btnVal \<in> {btnUp, btnDn, btnL, btnR, btnSel}) \<longrightarrow>
       fst r \<in> {btnUp, btnDn, btnL, btnR, btnSel}", OF _ assms], goal_cases)
  case (1 f env st btnVal s r)
  obtain b s' where p: "readLcdButtons env s = (b, s')"
    by (cases "readLcdButtons env s")
  from readLcdButtons_range [of env s] p
  have br: "b \<in> {btnUp, btnDn, btnL, btnR, btnSel, btnNone}" by simp
  show ?case
  proof
    assume inv: "st \<noteq> up_state \<longrightarrow> btnVal \<in> {btnUp, btnDn, btnL, btnR, btnSel}"
    show "fst r \<in> {btnUp, btnDn, btnL, btnR, btnSel}"
    proof (cases "st = up_state")
      case True
      show ?thesis
      proof (cases "b = btnNone")
        case True
        from 1(2) have a: "f env st b s' = Some r"
          by (simp only: \<open>st = up_state\<close> p Let_def prod.case True simp_thms if_True if_False)
        from 1(1) [OF a] \<open>st = up_state\<close> show ?thesis by blast
      next
        case False
        from 1(2) False
        have a: "f env timer_done_state b (emit (Delay DEBOUNCE_TIME) s') = Some r"
          by (simp only: \<open>st = up_state\<close> p Let_def prod.case simp_thms if_True if_False)
        from 1(1) [OF a] br False show ?thesis by auto
      qed
    next
      case False
      with inv have bv: "btnVal \<in> {btnUp, btnDn, btnL, btnR, btnSel}" by simp
      show ?thesis
      proof (cases "st = timer_done_state")
        case True
        from False 1(2)
        have "(let (newbtnVal, s') = readLcdButtons env s
               in if newbtnVal = btnVal then f env wait_for_up_state btnVal s'
                  else f env up_state btnVal s') = Some r"
          by (simp only: True simp_thms if_True if_False)
        then have w: "(if b = btnVal then f env wait_for_up_state btnVal s'
                  else f env up_state btnVal s') = Some r"
          by (simp only: p Let_def prod.case)
        have "f env wait_for_up_state btnVal s' = Some r \<or> f env up_state btnVal s' = Some r"
        proof (cases "b = btnVal")
          case True
          with w show ?thesis by simp
        next
          case False
          with w show ?thesis by simp
        qed
        then consider (wait) "f env wait_for_up_state btnVal s' = Some r"
          | (up) "f env up_state btnVal s' = Some r"
          by blast
        then show ?thesis
        proof cases
          case wait
          from 1(1) [OF wait] bv show ?thesis by blast
        next
          case up
          from 1(1) [OF up] show ?thesis by blast
        qed
      next
        case nt: False
        show ?thesis
        proof (cases "st = wait_for_up_state")
          case True
          from False nt 1(2)
          have "(let (newbtnVal, s') = readLcdButtons env s
                 in if newbtnVal = btnNone then Some (btnVal, s')
                    else if newbtnVal \<noteq> btnVal then f env up_state btnVal s'
                    else f env st btnVal s') = Some r"
            by (simp only: True simp_thms if_True if_False)
          then have w: "(if b = btnNone then Some (btnVal, s')
                    else if b \<noteq> btnVal then f env up_state btnVal s'
                    else f env st btnVal s') = Some r"
            by (simp only: p Let_def prod.case)
          have "r = (btnVal, s') \<or> f env up_state btnVal s' = Some r
                \<or> f env st btnVal s' = Some r"
          proof (cases "b = btnNone")
            case True
            with w show ?thesis by simp
          next
            case bn: False
            show ?thesis
            proof (cases "b = btnVal")
              case True
              with w bn show ?thesis by simp
            next
              case False
              with w bn show ?thesis by simp
            qed
          qed
          then consider (ret) "r = (btnVal, s')"
            | (up) "f env up_state btnVal s' = Some r"
            | (same) "f env st btnVal s' = Some r"
            by blast
          then show ?thesis
          proof cases
            case ret
            with bv show ?thesis by simp
          next
            case up
            from 1(1) [OF up] show ?thesis by blast
          next
            case same
            from 1(1) [OF same] False bv show ?thesis by blast
          qed
        next
          case nw: False
          from nw False nt 1(2)
          have "f env st btnVal s = Some r" by (simp only: simp_thms if_False)
          from 1(1) [OF this] False bv show ?thesis by blast
        qed
      qed
    qed
  qed
qed

text \<open>
  Claim C10. Whenever \<open>getKeyClick\<close> returns, the value it returns is one of the five
  button identifiers \<open>btnUp\<close>, \<open>btnDn\<close>, \<open>btnL\<close>, \<open>btnR\<close>, \<open>btnSel\<close> and is never
  \<open>btnNone\<close>.
\<close>

theorem getKeyClick_returns_button:
  "getKeyClick env s = Some (b, s') \<Longrightarrow>
     b \<in> {btnUp, btnDn, btnL, btnR, btnSel} \<and> b \<noteq> btnNone"
  using getKeyClick_loop_button [of env up_state 0 s "(b, s')"]
  by (auto simp add: getKeyClick_def button_defs)

theorem getKeyClick_returns_button_witness:
  "map_option fst (getKeyClick env_select_click initial_state) = Some btnSel \<and>
   btnSel \<in> {btnUp, btnDn, btnL, btnR, btnSel} \<and> btnSel \<noteq> btnNone"
proof -
  have e: "map_option fst (getKeyClick env_select_click initial_state) = Some btnSel"
    by code_simp
  then obtain s' where "getKeyClick env_select_click initial_state = Some (btnSel, s')"
    by auto
  from getKeyClick_returns_button [OF this] e show ?thesis by simp
qed

subsection \<open>Decoding digits\<close>

text \<open>
  With at most four digits no intermediate result leaves the 16-bit range, and
  \<open>getIntFromDigits\<close> computes the number the digits denote.
\<close>

lemma int16_id: "- 32768 \<le> x \<Longrightarrow> x < 32768 \<Longrightarrow> int16 x = x"
  by (simp add: int16_def)

lemma decimal_value_snoc: "decimal_value (ds @ [d]) = 10 * decimal_value ds + d"
  by (induction ds) (simp_all add: algebra_simps)

lemma decimal_value_bounds:
  "\<forall>d \<in> set ds. 0 \<le> d \<and> d \<le> 9 \<Longrightarrow>
     0 \<le> decimal_value ds \<and> decimal_value ds < 10 ^ length ds"
proof (induction ds rule: rev_induct)
  case Nil
  then show ?case by simp
next
  case (snoc d ds)
  then have "0 \<le> decimal_value ds" "decimal_value ds + 1 \<le> 10 ^ length ds" "0 \<le> d" "d \<le> 9"
    by simp_all
  then have "10 * (decimal_value ds + 1) \<le> 10 * 10 ^ length ds" "0 \<le> 10 * decimal_value ds + d"
    by simp_all
  with \<open>d \<le> 9\<close> show ?case by (simp add: decimal_value_snoc)
qed

lemma digits_of_decimal_value:
  "\<forall>d \<in> set ds. 0 \<le> d \<and> d \<le> 9 \<Longrightarrow> digits_of_int (length ds) (decimal_value ds) = ds"
proof (induction ds rule: rev_induct)
  case Nil
  then show ?case by simp
next
  case (snoc d ds)
  then have d: "0 \<le> d" "d \<le> 9" and ih: "digits_of_int (length ds) (decimal_value ds) = ds"
    by simp_all
  from d have "(10 * decimal_value ds + d) div 10 = decimal_value ds"
    "(10 * decimal_value ds + d) mod 10 = d"
    by simp_all
  with ih show ?case by (simp add: decimal_value_snoc)
qed

lemma getIntFromDigits_loop_decimal:
  assumes len: "length ds \<le> 4" and dig: "\<forall>d \<in> set ds. 0 \<le> d \<and> d \<le> 9"
  shows "k \<le> length ds \<Longrightarrow>
    getIntFromDigits_loop ds (int k - 1) (decimal_value (drop k ds)) (10 ^ (length ds - k))
      = decimal_value ds"
proof (induction k)
  case 0
  then show ?case by simp
next
  case (Suc j)
  then have j: "j < length ds" by simp
  let ?V = "decimal_value (drop (Suc j) ds)"
  let ?e = "length ds - Suc j"
  have e3: "?e \<le> 3" using len j by simp
  have pw: "(10::int) ^ ?e \<le> 10 ^ 3" by (rule power_increasing [OF e3]) simp
  have dj: "0 \<le> ds ! j" "ds ! j \<le> 9" using dig j by simp_all
  have "\<forall>d \<in> set (drop (Suc j) ds). 0 \<le> d \<and> d \<le> 9"
    using dig by (meson in_set_dropD)
  from decimal_value_bounds [OF this]
  have V: "0 \<le> ?V" "?V < 10 ^ ?e" by simp_all
  have p0: "(0::int) < 10 ^ ?e" by simp
  have prod: "0 \<le> 10 ^ ?e * ds ! j" "10 ^ ?e * ds ! j \<le> 10 ^ 3 * 9"
  proof -
    show "0 \<le> 10 ^ ?e * ds ! j" using dj by simp
    show "10 ^ ?e * ds ! j \<le> 10 ^ 3 * 9"
      by (rule mult_mono [OF pw dj(2)]) (simp_all add: dj)
  qed
  have i1: "int16 (10 ^ ?e * ds ! j) = 10 ^ ?e * ds ! j"
    using prod by (intro int16_id) simp_all
  have i2: "int16 (?V + 10 ^ ?e * ds ! j) = ?V + 10 ^ ?e * ds ! j"
    using prod V pw by (intro int16_id) simp_all
  have i3: "int16 (10 ^ ?e * 10) = 10 ^ (length ds - j)"
  proof -
    have "(10::int) ^ ?e * 10 = 10 ^ Suc ?e" by simp
    also have "Suc ?e = length ds - j" using j by simp
    finally have eq: "(10::int) ^ ?e * 10 = 10 ^ (length ds - j)" .
    have "(10::int) ^ ?e * 10 \<le> 10000" using pw by simp
    moreover have "(0::int) \<le> 10 ^ ?e * 10" by simp
    ultimately have "int16 (10 ^ ?e * 10) = 10 ^ ?e * 10" by (intro int16_id) linarith+
    with eq show ?thesis by simp
  qed
  have dr: "drop j ds = ds ! j # drop (Suc j) ds"
    using j by (simp add: Cons_nth_drop_Suc)
  have len_dr: "length (drop (Suc j) ds) = ?e" by simp
  have val: "decimal_value (drop j ds) = ?V + 10 ^ ?e * ds ! j"
    by (simp only: dr decimal_value.simps len_dr) (simp add: algebra_simps)
  have "getIntFromDigits_loop ds (int (Suc j) - 1) ?V (10 ^ ?e)
        = getIntFromDigits_loop ds (int j - 1) (decimal_value (drop j ds)) (10 ^ (length ds - j))"
    by (subst getIntFromDigits_loop.simps) (simp add: i1 i2 i3 val)
  also have "\<dots> = decimal_value ds" using Suc.IH j by simp
  finally show ?case .
qed

lemma getIntFromDigits_decimal:
  assumes "length ds \<le> 4" "\<forall>d \<in> set ds. 0 \<le> d \<and> d \<le> 9"
  shows "getIntFromDigits ds (int (length ds)) = decimal_value ds"
  using getIntFromDigits_loop_decimal [OF assms, of "length ds"]
  by (simp add: getIntFromDigits_def)

lemma getIntFromDigits_roundtrip_short:
  assumes "length ds \<le> 4" "\<forall>d \<in> set ds. 0 \<le> d \<and> d \<le> 9"
  shows "digits_of_int (length ds) (getIntFromDigits ds (int (length ds))) = ds"
  using getIntFromDigits_decimal [OF assms] digits_of_decimal_value [OF assms(2)] by simp

text \<open>
  Claim C7 says that re-encoding \<open>getIntFromDigits(D, N)\<close> as \<open>N\<close> zero-padded decimal
  digits gives \<open>D\<close> back whenever that integer fits in \<open>N\<close> digits. The duration editor
  has six digits. For the duration 070000 the sum leaves the range of the 16-bit \<open>int\<close>:
  the function returns 4464, which fits in six digits and re-encodes as 004464.
\<close>

theorem getIntFromDigits_duration_overflow:
  "getIntFromDigits [0, 7, 0, 0, 0, 0] NUM_DURATION_DIGITS = 4464 \<and>
   fits_in_digits 6 (getIntFromDigits [0, 7, 0, 0, 0, 0] NUM_DURATION_DIGITS) \<and>
   digits_of_int 6 (getIntFromDigits [0, 7, 0, 0, 0, 0] NUM_DURATION_DIGITS)
     = [0, 0, 4, 4, 6, 4]"
  by code_simp

subsection \<open>The effect of the parts of the loop\<close>

lemma same_plan_refl: "same_plan s s"
  by (simp add: same_plan_def)

lemma same_plan_trans: "same_plan s t \<Longrightarrow> same_plan t u \<Longrightarrow> same_plan s u"
  by (simp add: same_plan_def)

lemma shutter_count_Cons:
  "shutter_count (e # tr) = (if e = DigitalWrite trig True then Suc (shutter_count tr) else shutter_count tr)"
  by (simp add: shutter_count_def)

lemma dot_count_Cons:
  "dot_count (e # tr) = (if e = LcdPrintStr ''.'' then Suc (dot_count tr) else dot_count tr)"
  by (simp add: dot_count_def)

lemma handler_pow:
  "same_plan s ((stepperDriveUsingTimer ^^ n) s) \<and>
   currentStep ((stepperDriveUsingTimer ^^ n) s) = (inc16 ^^ n) (currentStep s) \<and>
   timerRunning ((stepperDriveUsingTimer ^^ n) s) = timerRunning s \<and>
   windows ((stepperDriveUsingTimer ^^ n) s) = windows s \<and>
   reads ((stepperDriveUsingTimer ^^ n) s) = reads s \<and>
   prevButton ((stepperDriveUsingTimer ^^ n) s) = prevButton s \<and>
   shutter_count (trace ((stepperDriveUsingTimer ^^ n) s)) = shutter_count (trace s) \<and>
   dot_count (trace ((stepperDriveUsingTimer ^^ n) s)) = dot_count (trace s)"
  by (induction n)
    (simp_all add: same_plan_def stepperDriveUsingTimer_def emit_def inc16_def Let_def
      shutter_count_Cons dot_count_Cons stp_def trig_def)

lemma service_fields:
  "same_plan s (service env s)"
  "currentStep (service env s) =
     (if timerRunning s then (inc16 ^^ irq env (windows s)) (currentStep s) else currentStep s)"
  "timerRunning (service env s) = timerRunning s"
  "windows (service env s) = Suc (windows s)"
  "reads (service env s) = reads s"
  "prevButton (service env s) = prevButton s"
  "shutter_count (trace (service env s)) = shutter_count (trace s)"
  "dot_count (trace (service env s)) = dot_count (trace s)"
  using handler_pow [of "s\<lparr>windows := Suc (windows s)\<rparr>" "irq env (windows s)"]
  by (simp_all add: service_def Let_def same_plan_def)

lemma getButtonfromRawData_snd:
  "snd (getButtonfromRawData env s) = s\<lparr>reads := Suc (reads s)\<rparr>"
  by (simp add: getButtonfromRawData_def Let_def)

lemma readLcdButtons_unfold:
  "readLcdButtons env s =
     (if fst (getButtonfromRawData env s) = prevButton s
      then (prevButton s, s\<lparr>reads := Suc (reads s)\<rparr>)
      else (fst (getButtonfromRawData env (emit (Delay DEBOUNCE_TIME) (s\<lparr>reads := Suc (reads s)\<rparr>))),
            s\<lparr>reads := Suc (Suc (reads s)),
              trace := Delay DEBOUNCE_TIME # trace s,
              prevButton := fst (getButtonfromRawData env
                 (emit (Delay DEBOUNCE_TIME) (s\<lparr>reads := Suc (reads s)\<rparr>)))\<rparr>))"
  by (simp add: readLcdButtons_def case_prod_unfold getButtonfromRawData_snd Let_def emit_def)

lemma readLcdButtons_fields:
  "same_plan s (snd (readLcdButtons env s))"
  "currentStep (snd (readLcdButtons env s)) = currentStep s"
  "timerRunning (snd (readLcdButtons env s)) = timerRunning s"
  "windows (snd (readLcdButtons env s)) = windows s"
  "shutter_count (trace (snd (readLcdButtons env s))) = shutter_count (trace s)"
  "dot_count (trace (snd (readLcdButtons env s))) = dot_count (trace s)"
  by (simp_all add: readLcdButtons_unfold same_plan_def shutter_count_Cons dot_count_Cons)

lemma fire_camera_fields:
  "same_plan s (fire_camera s)"
  "currentStep (fire_camera s) = currentStep s"
  "timerRunning (fire_camera s)"
  "windows (fire_camera s) = windows s"
  "shutter_count (trace (fire_camera s)) = Suc (shutter_count (trace s))"
  "dot_count (trace (fire_camera s)) = dot_count (trace s)"
  by (simp_all add: fire_camera_def MsTimer2_stop_def MsTimer2_start_def Let_def same_plan_def
      emit_def shutter_count_Cons dot_count_Cons)

lemma motionControl_setup_fields:
  "totalMotorSteps (motionControl_setup s) = currentDistanceInt s * 5"
  "pulseDelay (motionControl_setup s) = fdiv (1000 * currentDurationInt s) (currentDistanceInt s * 5)"
  "intervalDistance (motionControl_setup s) =
     (if currentStepsInt s > 0 then trunc (currentDistanceInt s * 5 / currentStepsInt s)
      else intervalDistance s)"
  "dotDistance (motionControl_setup s) = trunc (currentDistanceInt s * 5 / of_int dotSteps)"
  "currentStepsInt (motionControl_setup s) = currentStepsInt s"
  "currentStep (motionControl_setup s) = 0"
  "timerRunning (motionControl_setup s)"
  "windows (motionControl_setup s) = windows s"
  "reads (motionControl_setup s) = reads s"
  "shutter_count (trace (motionControl_setup s)) = shutter_count (trace s)"
  "dot_count (trace (motionControl_setup s)) = dot_count (trace s)"
  by (simp_all add: motionControl_setup_def MsTimer2_set_def MsTimer2_start_def Let_def
      emit_def shutter_count_Cons dot_count_Cons dir_def trig_def)

lemma emit_fields:
  "same_plan s (emit e s)"
  "currentStep (emit e s) = currentStep s"
  "timerRunning (emit e s) = timerRunning s"
  "windows (emit e s) = windows s"
  "trace (emit e s) = e # trace s"
  by (simp_all add: emit_def same_plan_def)

lemma inc16_pow_pow: "(inc16 ^^ m) ((inc16 ^^ n) c) = (inc16 ^^ (m + n)) c"
  by (simp add: funpow_add)

lemma service_step:
  "currentStep (service env s) =
     (inc16 ^^ (if timerRunning s then irq env (windows s) else 0)) (currentStep s)"
  by (simp add: service_fields)

lemma pass_ticks_Suc: "pass_ticks env w (Suc n) = pass_ticks env w n + irq env (w + n)"
  by (simp add: pass_ticks_def)

lemma pass_ticks_0: "pass_ticks env w 0 = 0"
  by (simp add: pass_ticks_def)

text \<open>The state after \<open>n\<close> consecutive stretches.\<close>

lemma service_pow:
  "same_plan s ((service env ^^ n) s) \<and>
   timerRunning ((service env ^^ n) s) = timerRunning s \<and>
   windows ((service env ^^ n) s) = windows s + n \<and>
   shutter_count (trace ((service env ^^ n) s)) = shutter_count (trace s) \<and>
   dot_count (trace ((service env ^^ n) s)) = dot_count (trace s) \<and>
   currentStep ((service env ^^ n) s) =
     (inc16 ^^ (if timerRunning s then pass_ticks env (windows s) n else 0)) (currentStep s)"
proof (induction n)
  case 0
  show ?case by (simp add: same_plan_refl pass_ticks_0)
next
  case (Suc n)
  let ?t = "(service env ^^ n) s"
  from Suc.IH service_fields(1) [of ?t env]
  have "same_plan s (service env ?t)" by (blast intro: same_plan_trans)
  with Suc.IH show ?case
    by (simp add: service_fields(3-8) service_step inc16_pow_pow pass_ticks_Suc ac_simps)
qed

lemma pass_ticks_4:
  "pass_ticks env w 4 =
     irq env w + irq env (Suc w) + irq env (Suc (Suc w)) + irq env (Suc (Suc (Suc w)))"
  by (simp add: pass_ticks_def numeral_eq_Suc upt_rec)

lemma pass_ticks_5:
  "pass_ticks env w 5 = irq env w + pass_ticks env (Suc w) 4"
  by (simp add: pass_ticks_def numeral_eq_Suc upt_rec)

lemma motionControl_progress_result:
  assumes dd: "dotDistance s \<noteq> 0"
  shows "\<exists>q t. motionControl_progress env p s =
             (if of_int (currentStep t) < totalMotorSteps s then Continue q t
              else Exit Completed t) \<and>
           same_plan s t \<and> timerRunning t = timerRunning s \<and>
           windows t = windows s + 4 \<and>
           shutter_count (trace t) = shutter_count (trace s) \<and>
           currentStep t =
             (inc16 ^^ (if timerRunning s then pass_ticks env (windows s) 4 else 0))
               (currentStep s)"
proof -
  let ?s1 = "service env s"
  let ?s2 = "service env ?s1"
  let ?s3 = "service env ?s2"
  have sp3: "same_plan s ?s3"
    by (blast intro: same_plan_trans service_fields(1))
  have dd3: "dotDistance ?s3 \<noteq> 0"
    using sp3 dd by (simp add: same_plan_def)
  have props: "same_plan s (service env u) \<and> timerRunning (service env u) = timerRunning s \<and>
           windows (service env u) = windows s + 4 \<and>
           shutter_count (trace (service env u)) = shutter_count (trace s) \<and>
           currentStep (service env u) =
             (inc16 ^^ (if timerRunning s then pass_ticks env (windows s) 4 else 0))
               (currentStep s)"
    if "u = ?s3 \<or> u = emit (LcdPrintStr ''.'') ?s3" for u
  proof -
    have a: "same_plan ?s3 u" "timerRunning u = timerRunning ?s3" "windows u = windows ?s3"
      "shutter_count (trace u) = shutter_count (trace ?s3)" "currentStep u = currentStep ?s3"
      using that by (auto simp add: emit_fields same_plan_refl shutter_count_Cons)
    have "same_plan s (service env u)"
      using sp3 a(1) service_fields(1) [of u env] by (blast intro: same_plan_trans)
    moreover have "currentStep (service env u) =
             (inc16 ^^ (if timerRunning s then pass_ticks env (windows s) 4 else 0))
               (currentStep s)"
      by (simp add: service_step a service_fields(3,4) inc16_pow_pow pass_ticks_4 ac_simps)
    ultimately show ?thesis
      by (simp add: service_fields(3-8) a)
  qed
  show ?thesis
  proof (cases "currentStep ?s1 \<noteq> p")
    case True
    let ?u = "if c_rem (currentStep ?s3) (dotDistance ?s3) = 0
              then emit (LcdPrintStr ''.'') ?s3 else ?s3"
    have tm: "totalMotorSteps (service env ?u) = totalMotorSteps s"
      using props [of ?u] by (simp add: same_plan_def)
    have "motionControl_progress env p s =
            (if of_int (currentStep (service env ?u)) < totalMotorSteps s
             then Continue (currentStep ?s2) (service env ?u)
             else Exit Completed (service env ?u))"
      using True dd3 tm by (simp add: motionControl_progress_def Let_def)
    moreover have "?u = ?s3 \<or> ?u = emit (LcdPrintStr ''.'') ?s3" by simp
    note props [OF this]
    ultimately show ?thesis by blast
  next
    case False
    have tm: "totalMotorSteps (service env ?s3) = totalMotorSteps s"
      using props [of ?s3] by (simp add: same_plan_def)
    have "motionControl_progress env p s =
            (if of_int (currentStep (service env ?s3)) < totalMotorSteps s
             then Continue p (service env ?s3)
             else Exit Completed (service env ?s3))"
      using False tm by (simp add: motionControl_progress_def Let_def)
    moreover have "?s3 = ?s3 \<or> ?s3 = emit (LcdPrintStr ''.'') ?s3" by simp
    note props [OF this]
    ultimately show ?thesis by blast
  qed
qed

lemma motionControl_body_cancel:
  "fst (readLcdButtons env s) = btnSel \<Longrightarrow>
     motionControl_body env p s = Exit UserCancelled (service env (snd (readLcdButtons env s)))"
  by (simp add: motionControl_body_def case_prod_unfold Let_def)

lemma motionControl_body_video:
  assumes st: "currentStepsInt s = 0" and dd: "dotDistance s \<noteq> 0"
    and ns: "fst (readLcdButtons env s) \<noteq> btnSel"
  shows "\<exists>q t. motionControl_body env p s =
             (if of_int (currentStep t) < totalMotorSteps s then Continue q t
              else Exit Completed t) \<and>
           same_plan s t \<and> timerRunning t = timerRunning s \<and>
           windows t = windows s + 5 \<and>
           shutter_count (trace t) = shutter_count (trace s) \<and>
           currentStep t =
             (inc16 ^^ (if timerRunning s then pass_ticks env (windows s) 5 else 0))
               (currentStep s)"
proof -
  let ?s1 = "snd (readLcdButtons env s)"
  let ?s2 = "service env ?s1"
  have sp: "same_plan s ?s2"
    by (blast intro: same_plan_trans service_fields(1) readLcdButtons_fields(1))
  then have st2: "currentStepsInt ?s2 = 0" and dd2: "dotDistance ?s2 \<noteq> 0"
    and tm: "totalMotorSteps ?s2 = totalMotorSteps s"
    using st dd by (simp_all add: same_plan_def)
  have body: "motionControl_body env p s = motionControl_progress env p ?s2"
    using ns st2 by (simp add: motionControl_body_def case_prod_unfold Let_def)
  from motionControl_progress_result [OF dd2, of env p]
  obtain q t where r: "motionControl_progress env p ?s2 =
             (if of_int (currentStep t) < totalMotorSteps ?s2 then Continue q t
              else Exit Completed t)"
    and t: "same_plan ?s2 t" "timerRunning t = timerRunning ?s2"
      "windows t = windows ?s2 + 4"
      "shutter_count (trace t) = shutter_count (trace ?s2)"
      "currentStep t =
         (inc16 ^^ (if timerRunning ?s2 then pass_ticks env (windows ?s2) 4 else 0))
           (currentStep ?s2)"
    by blast
  have "same_plan s t" using sp t(1) by (rule same_plan_trans)
  moreover have "currentStep t =
             (inc16 ^^ (if timerRunning s then pass_ticks env (windows s) 5 else 0))
               (currentStep s)"
    by (simp add: t(5) service_fields(3,4) service_step readLcdButtons_fields(2-4)
        inc16_pow_pow pass_ticks_5 add.commute)
  moreover have "motionControl_body env p s =
             (if of_int (currentStep t) < totalMotorSteps s then Continue q t
              else Exit Completed t)"
    using body r tm by simp
  moreover have "timerRunning t = timerRunning s" "windows t = windows s + 5"
    "shutter_count (trace t) = shutter_count (trace s)"
    using t(2-4) by (simp_all add: service_fields(3-8) readLcdButtons_fields(2-6))
  ultimately show ?thesis by blast
qed

lemma inc16_pow: "0 \<le> c \<Longrightarrow> c + int k < 32768 \<Longrightarrow> (inc16 ^^ k) c = c + int k"
proof (induction k)
  case 0
  show ?case by simp
next
  case (Suc k)
  then have ih: "(inc16 ^^ k) c = c + int k" by simp
  have "(inc16 ^^ Suc k) c = inc16 (c + int k)" by (simp add: ih)
  also have "\<dots> = c + int k + 1"
    using Suc.prems by (simp add: inc16_def int16_def)
  finally show ?case by simp
qed

lemma motionControl_passes_Suc:
  "motionControl_passes env (Suc n) p s =
     (case motionControl_passes env n p s of
        Continue q t \<Rightarrow> motionControl_body env q t
      | Exit oc t \<Rightarrow> Exit oc t
      | Fault f \<Rightarrow> Fault f)"
proof (induction n arbitrary: p s)
  case 0
  show ?case by (simp split: step_result.splits)
next
  case (Suc n)
  show ?case
  proof (cases "motionControl_body env p s")
    case (Continue q t)
    have "motionControl_passes env (Suc (Suc n)) p s = motionControl_passes env (Suc n) q t"
      by (simp add: Continue)
    also note Suc.IH [of q t]
    also have "motionControl_passes env n q t = motionControl_passes env (Suc n) p s"
      by (simp add: Continue)
    finally show ?thesis .
  next
    case (Exit oc t)
    then show ?thesis by simp
  next
    case (Fault f)
    then show ?thesis by simp
  qed
qed

lemma motionControl_loop_passes:
  "motionControl_passes env n p s = Exit oc t \<Longrightarrow>
     motionControl_loop env p s = Some (Inr (oc, t))"
proof (induction n arbitrary: p s)
  case 0
  then show ?case by simp
next
  case (Suc n)
  show ?case
  proof (cases "motionControl_body env p s")
    case (Continue q u)
    with Suc.prems have "motionControl_passes env n q u = Exit oc t" by simp
    from Suc.IH [OF this] Continue show ?thesis
      by (subst motionControl_loop.simps) simp
  next
    case (Exit oc' u)
    with Suc.prems show ?thesis
      by (subst motionControl_loop.simps) simp
  next
    case (Fault f)
    with Suc.prems show ?thesis by simp
  qed
qed

lemma motionControl_loop_result:
  assumes "motionControl_loop env p s = Some r"
  shows "\<exists>n. case r of Inr (oc, t) \<Rightarrow> motionControl_passes env n p s = Exit oc t
                | Inl f \<Rightarrow> motionControl_passes env n p s = Fault f"
proof (rule motionControl_loop.raw_induct
    [where P = "\<lambda>env p s r. \<exists>n. case r of
        Inr (oc, t) \<Rightarrow> motionControl_passes env n p s = Exit oc t
      | Inl f \<Rightarrow> motionControl_passes env n p s = Fault f", OF _ assms], goal_cases)
  case (1 loop env p s r)
  show ?case
  proof (cases "motionControl_body env p s")
    case (Continue q u)
    with 1(2) have "loop env q u = Some r" by simp
    from 1(1) [OF this] obtain n where
      "case r of Inr (oc, t) \<Rightarrow> motionControl_passes env n q u = Exit oc t
       | Inl f \<Rightarrow> motionControl_passes env n q u = Fault f" ..
    then have "case r of Inr (oc, t) \<Rightarrow> motionControl_passes env (Suc n) p s = Exit oc t
       | Inl f \<Rightarrow> motionControl_passes env (Suc n) p s = Fault f"
      by (simp add: Continue split: sum.splits prod.splits)
    then show ?thesis ..
  next
    case (Exit oc u)
    with 1(2) have "r = Inr (oc, u)" by simp
    then have "case r of Inr (oc, t) \<Rightarrow> motionControl_passes env (Suc 0) p s = Exit oc t
       | Inl f \<Rightarrow> motionControl_passes env (Suc 0) p s = Fault f"
      by (simp add: Exit split: sum.splits prod.splits)
    then show ?thesis ..
  next
    case (Fault f)
    with 1(2) have "r = Inl f" by simp
    then have "case r of Inr (oc, t) \<Rightarrow> motionControl_passes env (Suc 0) p s = Exit oc t
       | Inl f \<Rightarrow> motionControl_passes env (Suc 0) p s = Fault f"
      by (simp add: Fault split: sum.splits prod.splits)
    then show ?thesis ..
  qed
qed

text \<open>Video mode: what any number of passes leads to, whatever the environment does.\<close>

lemma motionControl_passes_video:
  assumes "currentStepsInt s = 0" "dotDistance s \<noteq> 0"
  shows "case motionControl_passes env n p s of
           Continue q t \<Rightarrow> same_plan s t \<and> timerRunning t = timerRunning s \<and>
             shutter_count (trace t) = shutter_count (trace s) \<and>
             (0 < n \<longrightarrow> of_int (currentStep t) < totalMotorSteps s)
         | Exit oc t \<Rightarrow> same_plan s t \<and> timerRunning t = timerRunning s \<and>
             shutter_count (trace t) = shutter_count (trace s) \<and>
             (oc = Completed \<longrightarrow> totalMotorSteps s \<le> of_int (currentStep t))
         | Fault f \<Rightarrow> False"
  using assms
proof (induction n arbitrary: p s)
  case 0
  show ?case by (simp add: same_plan_refl)
next
  case (Suc n)
  show ?case
  proof (cases "fst (readLcdButtons env s) = btnSel")
    case True
    have "same_plan s (service env (snd (readLcdButtons env s)))"
      by (blast intro: same_plan_trans service_fields(1) readLcdButtons_fields(1))
    then show ?thesis
      by (simp add: motionControl_body_cancel [OF True] service_fields(3-8)
          readLcdButtons_fields(2-6))
  next
    case False
    from motionControl_body_video [OF Suc.prems False, of p]
    obtain q t where b: "motionControl_body env p s =
             (if of_int (currentStep t) < totalMotorSteps s then Continue q t
              else Exit Completed t)"
      and t: "same_plan s t" "timerRunning t = timerRunning s"
        "shutter_count (trace t) = shutter_count (trace s)"
      by blast
    show ?thesis
    proof (cases "of_int (currentStep t) < totalMotorSteps s")
      case lt: True
      from t(1) Suc.prems have pl: "currentStepsInt t = 0" "dotDistance t \<noteq> 0"
        "totalMotorSteps t = totalMotorSteps s"
        by (simp_all add: same_plan_def)
      have eq: "motionControl_passes env (Suc n) p s = motionControl_passes env n q t"
        using b lt by simp
      show ?thesis
      proof (cases n)
        case 0
        with eq lt t show ?thesis by simp
      next
        case (Suc m)
        from Suc.IH [OF pl(1,2), of q] t pl(3) Suc eq show ?thesis
          by (auto split: step_result.splits intro: same_plan_trans)
      qed
    next
      case ge: False
      with b t show ?thesis by simp
    qed
  qed
qed

subsection \<open>Committing a distance\<close>

text \<open>Polling the keypad and waiting for a click leave the editor's variables alone.\<close>

lemma same_entry_refl: "same_entry s s"
  by (simp add: same_entry_def)

lemma same_entry_trans: "same_entry s t \<Longrightarrow> same_entry t u \<Longrightarrow> same_entry s u"
  by (simp add: same_entry_def)

lemma readLcdButtons_entry: "same_entry s (snd (readLcdButtons env s))"
  by (simp add: readLcdButtons_unfold same_entry_def)

lemma emit_entry: "same_entry s (emit e s)"
  by (simp add: emit_def same_entry_def)

lemma getKeyClick_loop_entry:
  assumes "getKeyClick_loop env st btnVal s = Some r"
  shows "same_entry s (snd r)"
proof (rule getKeyClick_loop.raw_induct
    [where P = "\<lambda>env st btnVal s r. same_entry s (snd r)", OF _ assms], goal_cases)
  case (1 f env st btnVal s r)
  obtain b s' where p: "readLcdButtons env s = (b, s')"
    by (cases "readLcdButtons env s")
  have e1: "same_entry s s'"
    using readLcdButtons_entry [of s env] by (simp add: p)
  have e2: "same_entry s (emit (Delay DEBOUNCE_TIME) s')"
    using e1 emit_entry by (rule same_entry_trans)
  have step: "same_entry s (snd r)" if "f env st' b' u = Some r" "same_entry s u" for st' b' u
    using that(2) 1(1) [OF that(1)] by (rule same_entry_trans)
  from 1(2) have "f env timer_done_state b (emit (Delay DEBOUNCE_TIME) s') = Some r
    \<or> (\<exists>st' b'. f env st' b' s' = Some r) \<or> r = (btnVal, s')
    \<or> f env st btnVal s = Some r"
    unfolding p Let_def prod.case by (auto split: if_splits)
  then consider
      (a) "f env timer_done_state b (emit (Delay DEBOUNCE_TIME) s') = Some r"
    | (b) st' b' where "f env st' b' s' = Some r"
    | (c) "r = (btnVal, s')"
    | (d) "f env st btnVal s = Some r"
    by blast
  then show ?case
  proof cases
    case a
    then show ?thesis using e2 by (rule step)
  next
    case b
    then show ?thesis using e1 by (rule step)
  next
    case c
    then show ?thesis using e1 by simp
  next
    case d
    then show ?thesis using same_entry_refl by (rule step)
  qed
qed

lemma getKeyClick_entry:
  "getKeyClick env s = Some (b, s') \<Longrightarrow> same_entry s s'"
  using getKeyClick_loop_entry [of env up_state 0 s "(b, s')"] by (simp add: getKeyClick_def)


lemma adjustDigit_fields:
  "currentCursorPos (snd (adjustDigit x d s)) = currentCursorPos s"
  "LCDLine2Value (snd (adjustDigit x d s)) = LCDLine2Value s"
  "currentDistance (snd (adjustDigit x d s)) = currentDistance s"
  "currentChar (snd (adjustDigit x d s)) = fst (adjustDigit x d s)"
  by (simp_all add: adjustDigit_def Let_def emit_def)

lemma adjustDigit_range:
  "0 \<le> x \<Longrightarrow> x \<le> 9 \<Longrightarrow> 0 \<le> fst (adjustDigit x d s) \<and> fst (adjustDigit x d s) \<le> 9"
  by (simp add: adjustDigit_def Let_def emit_def)

text \<open>One click on Up or Down: the digit under the cursor is replaced by a digit.\<close>

lemma entry_ok_adjust:
  fixes d :: int and e :: event
  assumes ok: "entry_ok n s1"
  defines "s2 \<equiv> s1\<lparr>currentChar := LCDLine2Value s1 ! nat (currentCursorPos s1)\<rparr>"
  defines "s3 \<equiv> snd (adjustDigit (currentChar s2) d s2)"
  defines "s4 \<equiv> s3\<lparr>LCDLine2Value :=
                        (LCDLine2Value s3)[nat (currentCursorPos s3) := currentChar s3]\<rparr>"
  shows "entry_ok n (emit e s4) \<and>
         length (LCDLine2Value (emit e s4)) = length (LCDLine2Value s1) \<and>
         currentDistance (emit e s4) = currentDistance s1"
proof -
  from ok have c: "0 \<le> currentCursorPos s1" "currentCursorPos s1 < n"
    "n \<le> int (length (LCDLine2Value s1))"
    and dg: "\<forall>d \<in> set (LCDLine2Value s1). 0 \<le> d \<and> d \<le> 9"
    by (simp_all add: entry_ok_def)
  from c have i: "nat (currentCursorPos s1) < length (LCDLine2Value s1)" by simp
  with dg have x: "0 \<le> LCDLine2Value s1 ! nat (currentCursorPos s1)"
    "LCDLine2Value s1 ! nat (currentCursorPos s1) \<le> 9"
    by simp_all
  have cc: "currentChar s2 = LCDLine2Value s1 ! nat (currentCursorPos s1)"
    by (simp add: s2_def)
  from adjustDigit_range [OF x, of d s2]
  have y: "0 \<le> currentChar s3" "currentChar s3 \<le> 9"
    by (simp_all add: s3_def adjustDigit_fields cc)
  have f3: "currentCursorPos s3 = currentCursorPos s1" "LCDLine2Value s3 = LCDLine2Value s1"
    "currentDistance s3 = currentDistance s1"
    by (simp_all add: s3_def adjustDigit_fields s2_def)
  have l4: "LCDLine2Value (emit e s4)
      = (LCDLine2Value s1)[nat (currentCursorPos s1) := currentChar s3]"
    "currentCursorPos (emit e s4) = currentCursorPos s1"
    "currentDistance (emit e s4) = currentDistance s1"
    by (simp_all add: s4_def emit_def f3)
  have "\<forall>d \<in> set ((LCDLine2Value s1)[nat (currentCursorPos s1) := currentChar s3]).
          0 \<le> d \<and> d \<le> 9"
    using dg y set_update_subset_insert [of "LCDLine2Value s1" "nat (currentCursorPos s1)"
        "currentChar s3"]
    by auto
  then show ?thesis using c by (simp add: entry_ok_def l4)
qed

lemma getUserInputValue_loop_ok:
  assumes "getUserInputValue_loop env n s = Some s'"
  shows "entry_ok n s \<longrightarrow>
           entry_ok n s' \<and> length (LCDLine2Value s') = length (LCDLine2Value s) \<and>
           currentDistance s' = currentDistance s"
proof (rule getUserInputValue_loop.raw_induct
    [where P = "\<lambda>env n s s'. entry_ok n s \<longrightarrow>
           entry_ok n s' \<and> length (LCDLine2Value s') = length (LCDLine2Value s) \<and>
           currentDistance s' = currentDistance s", OF _ assms], goal_cases)
  case (1 f env n s s')
  show ?case
  proof
    assume ok: "entry_ok n s"
    from 1(2) obtain btnVal s1 where k: "getKeyClick env s = Some (btnVal, s1)"
      by (cases "getKeyClick env s") auto
    from getKeyClick_entry [OF k] have se: "same_entry s s1" .
    with ok have ok1: "entry_ok n s1" by (simp add: entry_ok_def same_entry_def)
    from se have fr: "length (LCDLine2Value s1) = length (LCDLine2Value s)"
      "currentDistance s1 = currentDistance s"
      by (simp_all add: same_entry_def)
    have next_ok: "entry_ok n s' \<and> length (LCDLine2Value s') = length (LCDLine2Value s) \<and>
           currentDistance s' = currentDistance s"
      if r: "f env n u = Some s'" and u: "entry_ok n u"
        "length (LCDLine2Value u) = length (LCDLine2Value s1)"
        "currentDistance u = currentDistance s1" for u
      using 1(1) [OF r] u fr by simp
    note body = 1(2) [unfolded k, simplified]
    consider (up) "btnVal = btnUp" | (dn) "btnVal = btnDn" "btnVal \<noteq> btnUp"
      | (l) "btnVal = btnL" "btnVal \<noteq> btnUp" "btnVal \<noteq> btnDn"
      | (r) "btnVal = btnR" "btnVal \<noteq> btnUp" "btnVal \<noteq> btnDn" "btnVal \<noteq> btnL"
      | (sel) "btnVal = btnSel" "btnVal \<noteq> btnUp" "btnVal \<noteq> btnDn" "btnVal \<noteq> btnL"
          "btnVal \<noteq> btnR"
      | (other) "btnVal \<noteq> btnSel" "btnVal \<noteq> btnUp" "btnVal \<noteq> btnDn" "btnVal \<noteq> btnL"
          "btnVal \<noteq> btnR"
      by blast
    then show "entry_ok n s' \<and> length (LCDLine2Value s') = length (LCDLine2Value s) \<and>
           currentDistance s' = currentDistance s"
    proof cases
      case up
      let ?s2 = "s1\<lparr>currentChar := LCDLine2Value s1 ! nat (currentCursorPos s1)\<rparr>"
      let ?s3 = "snd (adjustDigit (currentChar ?s2) 1 ?s2)"
      let ?s4 = "?s3\<lparr>LCDLine2Value :=
                        (LCDLine2Value ?s3)[nat (currentCursorPos ?s3) := currentChar ?s3]\<rparr>"
      from body up have g: "f env n (emit (LcdSetCursor (currentCursorPos ?s4) 1) ?s4) = Some s'"
        by (simp add: Let_def case_prod_unfold)
      note a = entry_ok_adjust [OF ok1,
          where e = "LcdSetCursor (currentCursorPos ?s4) 1" and d = 1]
      show ?thesis
        by (rule next_ok [OF g a [THEN conjunct1] a [THEN conjunct2, THEN conjunct1]
              a [THEN conjunct2, THEN conjunct2]])
    next
      case dn
      let ?s2 = "s1\<lparr>currentChar := LCDLine2Value s1 ! nat (currentCursorPos s1)\<rparr>"
      let ?s3 = "snd (adjustDigit (currentChar ?s2) 0 ?s2)"
      let ?s4 = "?s3\<lparr>LCDLine2Value :=
                        (LCDLine2Value ?s3)[nat (currentCursorPos ?s3) := currentChar ?s3]\<rparr>"
      from body dn have g: "f env n (emit (LcdSetCursor (currentCursorPos ?s4) 1) ?s4) = Some s'"
        by (simp add: Let_def case_prod_unfold)
      note a = entry_ok_adjust [OF ok1,
          where e = "LcdSetCursor (currentCursorPos ?s4) 1" and d = 0]
      show ?thesis
        by (rule next_ok [OF g a [THEN conjunct1] a [THEN conjunct2, THEN conjunct1]
              a [THEN conjunct2, THEN conjunct2]])
    next
      case l
      let ?s2 = "if currentCursorPos s1 = 0 then s1
                 else s1\<lparr>currentCursorPos := currentCursorPos s1 - 1\<rparr>"
      from body l have g: "f env n (emit (LcdSetCursor (currentCursorPos ?s2) 1) ?s2) = Some s'"
        by (simp add: Let_def)
      have h: "entry_ok n (emit (LcdSetCursor (currentCursorPos ?s2) 1) ?s2)"
        "length (LCDLine2Value (emit (LcdSetCursor (currentCursorPos ?s2) 1) ?s2))
           = length (LCDLine2Value s1)"
        "currentDistance (emit (LcdSetCursor (currentCursorPos ?s2) 1) ?s2) = currentDistance s1"
        using ok1 by (auto simp add: entry_ok_def emit_def)
      show ?thesis by (rule next_ok [OF g h])
    next
      case r
      let ?s2 = "if currentCursorPos s1 = n - 1 then s1
                 else s1\<lparr>currentCursorPos := currentCursorPos s1 + 1\<rparr>"
      from body r have g: "f env n (emit (LcdSetCursor (currentCursorPos ?s2) 1) ?s2) = Some s'"
        by (simp add: Let_def)
      have h: "entry_ok n (emit (LcdSetCursor (currentCursorPos ?s2) 1) ?s2)"
        "length (LCDLine2Value (emit (LcdSetCursor (currentCursorPos ?s2) 1) ?s2))
           = length (LCDLine2Value s1)"
        "currentDistance (emit (LcdSetCursor (currentCursorPos ?s2) 1) ?s2) = currentDistance s1"
        using ok1 by (auto simp add: entry_ok_def emit_def)
      show ?thesis by (rule next_ok [OF g h])
    next
      case sel
      from body sel have "s' = s1" by simp
      with ok1 fr show ?thesis by simp
    next
      case other
      from body other have g: "f env n (emit (LcdSetCursor (currentCursorPos s1) 1) s1) = Some s'"
        by simp
      have h: "entry_ok n (emit (LcdSetCursor (currentCursorPos s1) 1) s1)"
        "length (LCDLine2Value (emit (LcdSetCursor (currentCursorPos s1) 1) s1))
           = length (LCDLine2Value s1)"
        "currentDistance (emit (LcdSetCursor (currentCursorPos s1) 1) s1) = currentDistance s1"
        using ok1 by (auto simp add: entry_ok_def emit_def)
      show ?thesis by (rule next_ok [OF g h])
    qed
  qed
qed


lemma copy_prefix:
  "j \<le> length to \<Longrightarrow> j \<le> length xs \<Longrightarrow>
     fold (\<lambda>i arr. arr[i := xs ! i]) [0..<j] to = take j xs @ drop j to"
proof (induction j)
  case 0
  show ?case by simp
next
  case (Suc j)
  then have ih: "fold (\<lambda>i arr. arr[i := xs ! i]) [0..<j] to = take j xs @ drop j to"
    and j: "j < length to" "j < length xs"
    by simp_all
  have "(take j xs @ drop j to)[j := xs ! j] = take j xs @ (drop j to)[0 := xs ! j]"
    using j by (simp add: list_update_append)
  also have "(drop j to)[0 := xs ! j] = xs ! j # drop (Suc j) to"
    using j by (simp add: Cons_nth_drop_Suc [symmetric])
  also have "take j xs @ xs ! j # drop (Suc j) to = take (Suc j) xs @ drop (Suc j) to"
    using j by (simp add: take_Suc_conv_app_nth)
  finally show ?case by (simp add: ih)
qed

lemma readFromLCDLine2_take:
  assumes "length to = nat n" "nat n \<le> length (LCDLine2Value s)"
  shows "readFromLCDLine2 to n s = take (nat n) (LCDLine2Value s)"
  using copy_prefix [of "nat n" to "LCDLine2Value s"] assms
  by (simp add: readFromLCDLine2_def)

lemma getDistance_digits:
  assumes g: "getDistance env s = Some s'"
    and ok: "entry_ok NUM_DISTANCE_DIGITS s" and len: "length (currentDistance s) = 4"
  shows "currentDistance s' = take 4 (LCDLine2Value s') \<and>
         (\<forall>d \<in> set (currentDistance s'). 0 \<le> d \<and> d \<le> 9) \<and>
         getIntFromDigits (currentDistance s') NUM_DISTANCE_DIGITS
           = decimal_value (currentDistance s')"
proof -
  from g obtain s1 where u: "getUserInputValue env NUM_DISTANCE_DIGITS s = Some s1"
    by (cases "getUserInputValue env NUM_DISTANCE_DIGITS s") (auto simp add: getDistance_def)
  let ?e = "emit (LcdSetCursor (currentCursorPos s) 1) s"
  from u have l: "getUserInputValue_loop env NUM_DISTANCE_DIGITS ?e = Some s1"
    by (simp add: getUserInputValue_def)
  from ok have "entry_ok NUM_DISTANCE_DIGITS ?e" by (simp add: entry_ok_def emit_def)
  with getUserInputValue_loop_ok [OF l]
  have ok1: "entry_ok NUM_DISTANCE_DIGITS s1" and cd: "currentDistance s1 = currentDistance s"
    by (simp_all add: emit_def)
  from ok1 have l4: "4 \<le> length (LCDLine2Value s1)"
    and dg: "\<forall>d \<in> set (LCDLine2Value s1). 0 \<le> d \<and> d \<le> 9"
    by (simp_all add: entry_ok_def NUM_DISTANCE_DIGITS_def)
  have rd: "readFromLCDLine2 (currentDistance s1) NUM_DISTANCE_DIGITS s1
              = take 4 (LCDLine2Value s1)"
    using readFromLCDLine2_take [of "currentDistance s1" NUM_DISTANCE_DIGITS s1] l4 cd len
    by (simp add: NUM_DISTANCE_DIGITS_def)
  from g u have f: "currentDistance s' = take 4 (LCDLine2Value s1)"
    "LCDLine2Value s' = LCDLine2Value s1"
    by (auto simp add: getDistance_def Let_def rd split: if_splits)
  have dg': "\<forall>d \<in> set (currentDistance s'). 0 \<le> d \<and> d \<le> 9"
    using dg by (auto simp add: f dest: in_set_takeD)
  have len': "length (currentDistance s') = 4" using l4 by (simp add: f)
  from getIntFromDigits_decimal [of "currentDistance s'"] dg' len'
  have "getIntFromDigits (currentDistance s') NUM_DISTANCE_DIGITS
           = decimal_value (currentDistance s')"
    by (simp add: NUM_DISTANCE_DIGITS_def)
  with f dg' show ?thesis by simp
qed

text \<open>What a commit does to the state the editor returns.\<close>

lemma getDistance_unfold:
  assumes "getDistance env s = Some s'"
  shows "\<exists>s1. getUserInputValue env NUM_DISTANCE_DIGITS s = Some s1 \<and>
           LCDLine2Value s' = LCDLine2Value s1 \<and>
           currentDistance s'
             = readFromLCDLine2 (currentDistance s1) NUM_DISTANCE_DIGITS s1 \<and>
           currentDistanceInt s' =
             (if getIntFromDigits (currentDistance s') NUM_DISTANCE_DIGITS > 1300 then 1300
              else of_int (getIntFromDigits (currentDistance s') NUM_DISTANCE_DIGITS))"
proof -
  from assms obtain s1 where u: "getUserInputValue env NUM_DISTANCE_DIGITS s = Some s1"
    by (cases "getUserInputValue env NUM_DISTANCE_DIGITS s") (auto simp add: getDistance_def)
  from assms u have "LCDLine2Value s' = LCDLine2Value s1 \<and>
           currentDistance s'
             = readFromLCDLine2 (currentDistance s1) NUM_DISTANCE_DIGITS s1 \<and>
           currentDistanceInt s' =
             (if getIntFromDigits (currentDistance s') NUM_DISTANCE_DIGITS > 1300 then 1300
              else of_int (getIntFromDigits (currentDistance s') NUM_DISTANCE_DIGITS))"
    by (auto simp add: getDistance_def MAX_TRAVEL_DISTANCE_def Let_def split: if_splits)
  with u show ?thesis by blast
qed

text \<open>
  Claim C8. After every distance commit the stored distance is at most 1300. The digits
  committed are those \<open>readFromLCDLine2\<close> copies from the buffer the editor returned, and
  the stored distance is 1300 when they decode to more than 1300 and the decoded value
  otherwise. When the editor was entered in a proper state, the committed digits are the
  first four digits of the buffer the editor returned, the value decoded is the number they
  denote, and the stored distance is that number or, when it exceeds 1300, 1300.
\<close>

theorem getDistance_clamped:
  "getDistance env s = Some s' \<Longrightarrow>
     MAX_TRAVEL_DISTANCE = 1300 \<and>
     currentDistanceInt s' \<le> 1300 \<and>
     (\<exists>s1. getUserInputValue env NUM_DISTANCE_DIGITS s = Some s1 \<and>
        LCDLine2Value s' = LCDLine2Value s1 \<and>
        currentDistance s' = readFromLCDLine2 (currentDistance s1) NUM_DISTANCE_DIGITS s1 \<and>
        currentDistanceInt s' =
          (if getIntFromDigits (currentDistance s') NUM_DISTANCE_DIGITS > 1300 then 1300
           else of_int (getIntFromDigits (currentDistance s') NUM_DISTANCE_DIGITS)) \<and>
        (entry_ok NUM_DISTANCE_DIGITS s \<and> length (currentDistance s) = 4 \<longrightarrow>
           currentDistance s' = take 4 (LCDLine2Value s1) \<and>
           (\<forall>d \<in> set (take 4 (LCDLine2Value s1)). 0 \<le> d \<and> d \<le> 9) \<and>
           getIntFromDigits (currentDistance s') NUM_DISTANCE_DIGITS
             = decimal_value (take 4 (LCDLine2Value s1)) \<and>
           currentDistanceInt s' =
             (if decimal_value (take 4 (LCDLine2Value s1)) > 1300 then 1300
              else of_int (decimal_value (take 4 (LCDLine2Value s1))))))"
proof -
  assume g: "getDistance env s = Some s'"
  from getDistance_unfold [OF g] obtain s1 where
    u: "getUserInputValue env NUM_DISTANCE_DIGITS s = Some s1"
    and b: "LCDLine2Value s' = LCDLine2Value s1"
    and c: "currentDistance s' = readFromLCDLine2 (currentDistance s1) NUM_DISTANCE_DIGITS s1"
    and i: "currentDistanceInt s' =
          (if getIntFromDigits (currentDistance s') NUM_DISTANCE_DIGITS > 1300 then 1300
           else of_int (getIntFromDigits (currentDistance s') NUM_DISTANCE_DIGITS))"
    by blast
  have le: "currentDistanceInt s' \<le> 1300" by (simp add: i)
  have wf: "currentDistance s' = take 4 (LCDLine2Value s1) \<and>
           (\<forall>d \<in> set (take 4 (LCDLine2Value s1)). 0 \<le> d \<and> d \<le> 9) \<and>
           getIntFromDigits (currentDistance s') NUM_DISTANCE_DIGITS
             = decimal_value (take 4 (LCDLine2Value s1)) \<and>
           currentDistanceInt s' =
             (if decimal_value (take 4 (LCDLine2Value s1)) > 1300 then 1300
              else of_int (decimal_value (take 4 (LCDLine2Value s1))))"
    if a: "entry_ok NUM_DISTANCE_DIGITS s \<and> length (currentDistance s) = 4"
  proof -
    note dg = getDistance_digits [OF g a [THEN conjunct1] a [THEN conjunct2]]
    from dg b have t: "currentDistance s' = take 4 (LCDLine2Value s1)" by simp
    from dg have d: "\<forall>d \<in> set (currentDistance s'). 0 \<le> d \<and> d \<le> 9" by (elim conjE)
    from dg have v: "getIntFromDigits (currentDistance s') NUM_DISTANCE_DIGITS
           = decimal_value (currentDistance s')" by (elim conjE)
    from d have d': "\<forall>d \<in> set (take 4 (LCDLine2Value s1)). 0 \<le> d \<and> d \<le> 9"
      by (simp only: t)
    from v have v': "getIntFromDigits (currentDistance s') NUM_DISTANCE_DIGITS
           = decimal_value (take 4 (LCDLine2Value s1))"
      by (simp only: t)
    from i have i': "currentDistanceInt s' =
             (if decimal_value (take 4 (LCDLine2Value s1)) > 1300 then 1300
              else of_int (decimal_value (take 4 (LCDLine2Value s1))))"
      by (simp only: v')
    from t d' v' i' show ?thesis by (intro conjI)
  qed
  have "MAX_TRAVEL_DISTANCE = 1300" by (simp add: MAX_TRAVEL_DISTANCE_def)
  with le u b c i wf show ?thesis by blast
qed

theorem getDistance_clamped_witness:
  "entry_ok NUM_DISTANCE_DIGITS initial_state \<and> length (currentDistance initial_state) = 4 \<and>
   map_option LCDLine2Value
     (getUserInputValue (env_clicks [143, 143, 0, 143, 741]) NUM_DISTANCE_DIGITS initial_state)
       = Some [2, 1, 0, 0, 0, 0] \<and>
   map_option (\<lambda>s'. (currentDistance s', currentDistanceInt s'))
     (getDistance (env_clicks [143, 143, 0, 143, 741]) initial_state)
       = Some ([2, 1, 0, 0], 1300) \<and>
   map_option LCDLine2Value
     (getUserInputValue (env_clicks [0, 143, 143, 143, 143, 143, 741]) NUM_DISTANCE_DIGITS
        initial_state)
       = Some [0, 5, 0, 0, 0, 0] \<and>
   map_option (\<lambda>s'. (currentDistance s', currentDistanceInt s'))
     (getDistance (env_clicks [0, 143, 143, 143, 143, 143, 741]) initial_state)
       = Some ([0, 5, 0, 0], 500)"
proof -
  have ok: "entry_ok NUM_DISTANCE_DIGITS initial_state \<and> length (currentDistance initial_state) = 4"
    by (simp add: entry_ok_def initial_state_def NUM_DISTANCE_DIGITS_def)
  have commit: "map_option (\<lambda>s'. (currentDistance s', currentDistanceInt s'))
       (getDistance (env_clicks bs) initial_state)
         = Some (take 4 buf, if decimal_value (take 4 buf) > 1300 then 1300
                            else of_int (decimal_value (take 4 buf)))"
    if e: "map_option LCDLine2Value
        (getUserInputValue (env_clicks bs) NUM_DISTANCE_DIGITS initial_state) = Some buf"
    for bs buf
  proof -
    from e obtain s1 where u: "getUserInputValue (env_clicks bs) NUM_DISTANCE_DIGITS initial_state
        = Some s1" and b: "LCDLine2Value s1 = buf"
      by auto
    then obtain s' where g: "getDistance (env_clicks bs) initial_state = Some s'"
      by (simp add: getDistance_def Let_def)
    from getDistance_clamped [OF g] obtain s2 where
      u2: "getUserInputValue (env_clicks bs) NUM_DISTANCE_DIGITS initial_state = Some s2"
      and r: "entry_ok NUM_DISTANCE_DIGITS initial_state \<and> length (currentDistance initial_state) = 4 \<longrightarrow>
           currentDistance s' = take 4 (LCDLine2Value s2) \<and>
           (\<forall>d \<in> set (take 4 (LCDLine2Value s2)). 0 \<le> d \<and> d \<le> 9) \<and>
           getIntFromDigits (currentDistance s') NUM_DISTANCE_DIGITS
             = decimal_value (take 4 (LCDLine2Value s2)) \<and>
           currentDistanceInt s' =
             (if decimal_value (take 4 (LCDLine2Value s2)) > 1300 then 1300
              else of_int (decimal_value (take 4 (LCDLine2Value s2))))"
      by blast
    from u u2 have "s2 = s1" by simp
    with r [rule_format, OF ok] b have "currentDistance s' = take 4 buf"
      "currentDistanceInt s' = (if decimal_value (take 4 buf) > 1300 then 1300
                            else of_int (decimal_value (take 4 buf)))"
      by simp_all
    with g show ?thesis by simp
  qed
  have e1: "map_option LCDLine2Value
     (getUserInputValue (env_clicks [143, 143, 0, 143, 741]) NUM_DISTANCE_DIGITS initial_state)
       = Some [2, 1, 0, 0, 0, 0]"
    by code_simp
  have e2: "map_option LCDLine2Value
     (getUserInputValue (env_clicks [0, 143, 143, 143, 143, 143, 741]) NUM_DISTANCE_DIGITS
        initial_state)
       = Some [0, 5, 0, 0, 0, 0]"
    by code_simp
  from commit [OF e1] have c1: "map_option (\<lambda>s'. (currentDistance s', currentDistanceInt s'))
     (getDistance (env_clicks [143, 143, 0, 143, 741]) initial_state)
       = Some ([2, 1, 0, 0], 1300)"
    by simp
  from commit [OF e2] have c2: "map_option (\<lambda>s'. (currentDistance s', currentDistanceInt s'))
     (getDistance (env_clicks [0, 143, 143, 143, 143, 143, 741]) initial_state)
       = Some ([0, 5, 0, 0], 500)"
    by simp
  from ok e1 c1 e2 c2 show ?thesis by (intro conjI) (elim conjE, assumption)+
qed

subsection \<open>Runs the sketch does not guard against\<close>

text \<open>
  Claim C3 says that a degenerate plan (duration 0 with 0 steps, or a total of zero motor
  steps, or a pulse delay that is not positive) is refused: the pulse timer is not armed and
  an error is shown. \<open>motionControl\<close> has no such test. With distance 100, duration 0 and
  0 steps it sets the timer to a delay of 0 and starts it; with distance 0 the delay is a
  quotient by zero, and the timer is started all the same. In both runs the display only
  receives the cursor position.
\<close>

theorem degenerate_plan_starts_timer:
  "pulseDelay (motionControl_setup (run_state 100 0 0)) = Some 0 \<and>
   timerRunning (motionControl_setup (run_state 100 0 0)) \<and>
   trace (motionControl_setup (run_state 100 0 0)) =
     [TimerStart, TimerSet (Some 0), LcdSetCursor 0 1, DigitalWrite dir False] \<and>
   totalMotorSteps (motionControl_setup (run_state 0 10 0)) = 0 \<and>
   pulseDelay (motionControl_setup (run_state 0 10 0)) = None \<and>
   timerRunning (motionControl_setup (run_state 0 10 0)) \<and>
   trace (motionControl_setup (run_state 0 10 0)) =
     [TimerStart, TimerSet None, LcdSetCursor 0 1, DigitalWrite dir False]"
  by code_simp

text \<open>
  Claim C4 says that \<open>intervalDistance\<close> is at least 1 whenever the step count is positive,
  so that \<open>currentStep % intervalDistance\<close> never has a zero divisor. With distance 100
  (500 motor steps) and 501 camera steps the quotient 500 / 501 is truncated to 0, and the
  first pass of the loop takes the remainder by zero.
\<close>

theorem interval_zero_modulo:
  "intervalDistance (motionControl_setup (run_state 100 60 501)) = 0 \<and>
   map_option (map_sum id fst) (motionControl env_idle_ticking (run_state 100 60 501))
     = Some (Inl ModuloByZero)"
  by code_simp

text \<open>
  Claim C1 says that with distance 100, duration 60 and 5 steps \<open>intervalDistance\<close> is 100
  and the camera is fired exactly five times, at the counter values 100, 200, 300, 400 and
  500, and at no other value. The interval is 100. But the test \<open>currentStep %
  intervalDistance == 0\<close> holds at the counter value 0 as well, and nothing records that a
  multiple has been served: as long as no timer period has elapsed the camera is fired in
  every pass, here in the first and again in the second, with the counter still at 0.
\<close>

theorem shutter_fires_at_step_zero:
  "intervalDistance (motionControl_setup (run_state 100 60 5)) = 100 \<and>
   (case motionControl_passes env_quiet_start 1 0 (motionControl_setup (run_state 100 60 5)) of
      Continue q t \<Rightarrow> currentStep t = 0 \<and> shutter_count (trace t) = 1 \<and>
        take 7 (trace t) = [TimerStart, Delay 1920, DigitalWrite trig False, Delay 80,
          DigitalWrite trig True, Delay 20, TimerStop]
    | Exit oc t \<Rightarrow> False | Fault f \<Rightarrow> False) \<and>
   (case motionControl_passes env_quiet_start 2 0 (motionControl_setup (run_state 100 60 5)) of
      Continue q t \<Rightarrow> currentStep t = 0 \<and> shutter_count (trace t) = 2
    | Exit oc t \<Rightarrow> False | Fault f \<Rightarrow> False)"
  by code_simp

text \<open>
  Claim C6 says that a full run prints exactly \<open>dotSteps = 16\<close> progress dots and never
  more. \<open>dotDistance\<close> is the truncated quotient of the total by 16, so a total that is not
  a multiple of 16 has more than 16 multiples of \<open>dotDistance\<close> below it. With distance 4
  (20 motor steps) \<open>dotDistance\<close> is 1, and a run in which the loop sees every counter value
  prints 20 dots.
\<close>

theorem twenty_progress_dots:
  "(case motionControl env_idle_ticking (run_state 4 10 0) of
      Some (Inr (oc, t)) \<Rightarrow> oc = Completed \<and> totalMotorSteps t = 20 \<and> dotDistance t = 1 \<and>
        dot_count (trace t) = 20 \<and> dotSteps = 16
    | Some (Inl f) \<Rightarrow> False | None \<Rightarrow> False)"
  by code_simp

subsection \<open>Cancelling a run\<close>

lemma MsTimer2_stop_fields:
  "timerRunning (MsTimer2_stop s) = False"
  "trace (MsTimer2_stop s) = TimerStop # trace s"
  "currentStep (MsTimer2_stop s) = currentStep s"
  "same_plan s (MsTimer2_stop s)"
  by (simp_all add: MsTimer2_stop_def emit_def same_plan_def)

text \<open>When the poll reports Select, in terms of the level it samples.\<close>

lemma getButtonfromRawData_select:
  "fst (getButtonfromRawData env s) = btnSel \<longleftrightarrow> select_level (adc env (reads s))"
  by (auto simp add: getButtonfromRawData_def Let_def button_defs select_level_def)

lemma readLcdButtons_select_iff:
  "fst (readLcdButtons env s) = btnSel \<longleftrightarrow>
     (if fst (getButtonfromRawData env s) = prevButton s then prevButton s = btnSel
      else select_level (adc env (Suc (reads s))))"
  by (simp add: readLcdButtons_unfold getButtonfromRawData_select emit_def)

lemma readLcdButtons_select_level:
  assumes "select_level (adc env (reads s))"
    and "prevButton s = btnSel \<or> select_level (adc env (Suc (reads s)))"
  shows "fst (readLcdButtons env s) = btnSel"
proof -
  from assms(1) have raw: "fst (getButtonfromRawData env s) = btnSel"
    by (rule getButtonfromRawData_select [THEN iffD2])
  show ?thesis
  proof (cases "prevButton s = btnSel")
    case True
    with raw show ?thesis by (simp add: readLcdButtons_select_iff)
  next
    case False
    with assms(2) have "select_level (adc env (Suc (reads s)))" by simp
    with raw False show ?thesis by (simp add: readLcdButtons_select_iff)
  qed
qed

text \<open>
  Claim C2 says that a run ends within one pass of the loop whenever the raw Select level
  is asserted. The loop reads the keypad through \<open>readLcdButtons\<close>, which, when the level
  differs from the button it reported last, waits for the debounce time, samples again and
  reports the second sample. At the start of the run below the first sample is in the
  Select range and the second is idle: the poll reports \<open>btnNone\<close>, the pass goes on, and
  so do the passes after it.
\<close>

theorem select_glitch_not_cancelled:
  "select_level (adc env_select_glitch (reads (started_run 100 10 0))) \<and>
   fst (getButtonfromRawData env_select_glitch (started_run 100 10 0)) = btnSel \<and>
   timerRunning (started_run 100 10 0) \<and>
   fst (readLcdButtons env_select_glitch (started_run 100 10 0)) = btnNone \<and>
   verdict_of (motionControl_body env_select_glitch 0 (started_run 100 10 0)) = Goes_on \<and>
   verdict_of (motionControl_passes env_select_glitch 3 0 (started_run 100 10 0)) = Goes_on"
  by code_simp

text \<open>
  Claim C2, as the code has it. At any point of any run (any state of the loop, any value
  of the counter): when the level sampled by the poll at the head of a pass is Select and,
  unless Select is the button reported last, the level sampled after the debounce delay is
  Select too, that pass leaves the loop at once, without firing the camera or printing a
  dot and whether or not the travel is complete; the timer is stopped and the outcome is
  \<open>UserCancelled\<close>.
\<close>

theorem select_cancels_run:
  assumes "select_level (adc env (reads s))"
    and "prevButton s = btnSel \<or> select_level (adc env (Suc (reads s)))"
  shows "\<exists>t u. motionControl_body env prevStep s = Exit UserCancelled t \<and>
           motionControl_run env prevStep s = Some (Inr (UserCancelled, u)) \<and>
           \<not> timerRunning u \<and> hd (trace u) = TimerStop \<and>
           shutter_count (trace u) = shutter_count (trace s) \<and>
           dot_count (trace u) = dot_count (trace s)"
proof -
  have sel: "fst (readLcdButtons env s) = btnSel"
    using assms by (rule readLcdButtons_select_level)
  let ?t = "service env (snd (readLcdButtons env s))"
  let ?u = "MsTimer2_stop (service env ?t)"
  have b: "motionControl_body env prevStep s = Exit UserCancelled ?t"
    using sel by (rule motionControl_body_cancel)
  have l: "motionControl_loop env prevStep s = Some (Inr (UserCancelled, ?t))"
    by (subst motionControl_loop.simps) (simp add: b)
  have r: "motionControl_run env prevStep s = Some (Inr (UserCancelled, ?u))"
    by (simp add: motionControl_run_def l)
  have "\<not> timerRunning ?u" "hd (trace ?u) = TimerStop"
    by (simp_all add: MsTimer2_stop_fields)
  moreover have "shutter_count (trace ?u) = shutter_count (trace s)"
    "dot_count (trace ?u) = dot_count (trace s)"
    by (simp_all add: MsTimer2_stop_fields shutter_count_Cons dot_count_Cons
        service_fields(7,8) readLcdButtons_fields(5,6))
  ultimately show ?thesis using b r by blast
qed

theorem select_cancels_run_witness:
  "select_level (adc env_select_held (reads (started_run 100 10 0))) \<and>
   select_level (adc env_select_held (Suc (reads (started_run 100 10 0)))) \<and>
   verdict_of (motionControl_body env_select_held 0 (started_run 100 10 0)) = Ends UserCancelled \<and>
   map_option (map_sum id fst)
     (motionControl_run env_select_held 0 (started_run 100 10 0)) = Some (Inr UserCancelled)"
proof -
  have h: "select_level (adc env_select_held (reads (started_run 100 10 0)))"
    "select_level (adc env_select_held (Suc (reads (started_run 100 10 0))))"
    by (simp_all add: env_select_held_def select_level_def)
  from select_cancels_run [OF h(1) disjI2 [OF h(2)], of 0] obtain t u where
    "motionControl_body env_select_held 0 (started_run 100 10 0) = Exit UserCancelled t"
    "motionControl_run env_select_held 0 (started_run 100 10 0)
       = Some (Inr (UserCancelled, u))"
    by blast
  then show ?thesis using h by simp
qed

subsection \<open>Video mode\<close>

lemma getButtonfromRawData_not_select:
  "\<not> (650 \<le> adc env (reads s) \<and> adc env (reads s) < 850) \<Longrightarrow>
     fst (getButtonfromRawData env s) \<noteq> btnSel"
  by (simp add: getButtonfromRawData_def Let_def button_defs)

lemma readLcdButtons_not_select:
  assumes "\<forall>k. \<not> (650 \<le> adc env k \<and> adc env k < 850)"
  shows "fst (readLcdButtons env s) \<noteq> btnSel"
proof -
  have a: "fst (getButtonfromRawData env u) \<noteq> btnSel" for u
    using assms by (intro getButtonfromRawData_not_select) simp
  show ?thesis
  proof (cases "fst (getButtonfromRawData env s) = prevButton s")
    case True
    with a [of s] show ?thesis by (simp add: readLcdButtons_unfold)
  next
    case False
    with a show ?thesis by (simp add: readLcdButtons_unfold)
  qed
qed

lemma video_run_completes:
  assumes st: "currentStepsInt s0 = 0" and dd: "dotDistance s0 \<noteq> 0"
    and tr: "timerRunning s0" and c0: "currentStep s0 = 0"
    and tot: "totalMotorSteps s0 = of_nat N" and N: "0 < N" "N < 32000"
    and ns: "\<forall>k. \<not> (650 \<le> adc env k \<and> adc env k < 850)"
    and h2: "\<forall>m. pass_ticks env (windows s0 + 5 * m) 5 \<le> 1"
    and h3: "\<forall>k. \<exists>m\<ge>k. 0 < pass_ticks env (windows s0 + 5 * m) 5"
  shows "\<exists>n t. motionControl_passes env (Suc n) p s0 = Exit Completed t \<and>
           currentStep t = int N \<and> same_plan s0 t \<and>
           shutter_count (trace t) = shutter_count (trace s0)"
proof -
  define T where "T n = (\<Sum>m<n. pass_ticks env (windows s0 + 5 * m) 5)" for n
  have T0: "T 0 = 0" by (simp add: T_def)
  have TS: "T (Suc n) = T n + pass_ticks env (windows s0 + 5 * n) 5" for n
    by (simp add: T_def)
  have Tstep: "T (Suc n) \<le> T n + 1" for n
    using h2 by (simp add: TS)
  have Tmono: "T n \<le> T (n + k)" for n k
    by (induction k) (simp_all add: TS)
  have unbounded: "\<exists>n. k \<le> T n" for k
  proof (induction k)
    case 0
    show ?case by simp
  next
    case (Suc k)
    then obtain n where n: "k \<le> T n" ..
    from h3 obtain m where m: "n \<le> m" "0 < pass_ticks env (windows s0 + 5 * m) 5"
      by blast
    from m(1) Tmono [of n "m - n"] have "T n \<le> T m" by simp
    with n m(2) have "Suc k \<le> T (Suc m)" by (simp add: TS)
    then show ?case ..
  qed
  have reach: "\<exists>n. T n < N \<and> T (Suc n) = N"
  proof -
    from unbounded obtain n0 where "N \<le> T n0" ..
    define n where "n = (LEAST n. N \<le> T n)"
    have le: "N \<le> T n" unfolding n_def by (rule LeastI) (fact \<open>N \<le> T n0\<close>)
    have "n \<noteq> 0" using le N T0 by (cases n) auto
    then obtain j where j: "n = Suc j" by (cases n) auto
    have "\<not> N \<le> T j"
    proof
      assume "N \<le> T j"
      then have "n \<le> j" unfolding n_def by (rule Least_le)
      with j show False by simp
    qed
    then have lt: "T j < N" by simp
    with le j Tstep [of j] have "T (Suc j) = N" by simp
    with lt show ?thesis by blast
  qed
  have run: "T n < N \<Longrightarrow>
      \<exists>q t. motionControl_passes env n p s0 = Continue q t \<and> same_plan s0 t \<and>
        timerRunning t \<and> windows t = windows s0 + 5 * n \<and> currentStep t = int (T n) \<and>
        shutter_count (trace t) = shutter_count (trace s0)" for n
  proof (induction n)
    case 0
    show ?case using tr c0 by (simp add: same_plan_refl T0)
  next
    case (Suc n)
    from Suc.prems have lt: "T n < N" by (simp add: TS)
    from Suc.IH [OF lt] obtain q t where
      t: "motionControl_passes env n p s0 = Continue q t" "same_plan s0 t" "timerRunning t"
        "windows t = windows s0 + 5 * n" "currentStep t = int (T n)"
        "shutter_count (trace t) = shutter_count (trace s0)"
      by blast
    from t(2) st dd tot have pl: "currentStepsInt t = 0" "dotDistance t \<noteq> 0"
      "totalMotorSteps t = of_nat N"
      by (simp_all add: same_plan_def)
    from motionControl_body_video [OF pl(1,2) readLcdButtons_not_select [OF ns], of q]
    obtain q' t' where
      b: "motionControl_body env q t =
            (if of_int (currentStep t') < totalMotorSteps t then Continue q' t'
             else Exit Completed t')"
      and t': "same_plan t t'" "timerRunning t' = timerRunning t"
        "windows t' = windows t + 5"
        "shutter_count (trace t') = shutter_count (trace t)"
        "currentStep t' =
           (inc16 ^^ (if timerRunning t then pass_ticks env (windows t) 5 else 0))
             (currentStep t)"
      by blast
    have "currentStep t' = (inc16 ^^ pass_ticks env (windows s0 + 5 * n) 5) (int (T n))"
      using t'(5) t(3,4,5) by simp
    also have "\<dots> = int (T n) + int (pass_ticks env (windows s0 + 5 * n) 5)"
      using Suc.prems N by (intro inc16_pow) (simp_all add: TS)
    finally have c: "currentStep t' = int (T (Suc n))" by (simp add: TS)
    have "(of_int (currentStep t') :: rat) < totalMotorSteps t"
      using Suc.prems by (simp add: c pl(3))
    with b have "motionControl_body env q t = Continue q' t'" by simp
    then have "motionControl_passes env (Suc n) p s0 = Continue q' t'"
      by (simp only: motionControl_passes_Suc t(1) step_result.case)
    moreover have "same_plan s0 t'" using t(2) t'(1) by (rule same_plan_trans)
    moreover have "windows t' = windows s0 + 5 * Suc n" using t'(3) t(4) by simp
    ultimately show ?case using t'(2,4) t(3,6) c by auto
  qed
  from reach obtain n where n: "T n < N" "T (Suc n) = N" by blast
  from run [OF n(1)] obtain q t where
    t: "motionControl_passes env n p s0 = Continue q t" "same_plan s0 t" "timerRunning t"
      "windows t = windows s0 + 5 * n" "currentStep t = int (T n)"
      "shutter_count (trace t) = shutter_count (trace s0)"
    by blast
  from t(2) st dd tot have pl: "currentStepsInt t = 0" "dotDistance t \<noteq> 0"
    "totalMotorSteps t = of_nat N"
    by (simp_all add: same_plan_def)
  from motionControl_body_video [OF pl(1,2) readLcdButtons_not_select [OF ns], of q]
  obtain q' t' where
    b: "motionControl_body env q t =
          (if of_int (currentStep t') < totalMotorSteps t then Continue q' t'
           else Exit Completed t')"
    and t': "same_plan t t'" "timerRunning t' = timerRunning t"
      "windows t' = windows t + 5"
      "shutter_count (trace t') = shutter_count (trace t)"
      "currentStep t' =
         (inc16 ^^ (if timerRunning t then pass_ticks env (windows t) 5 else 0))
           (currentStep t)"
    by blast
  have "currentStep t' = (inc16 ^^ pass_ticks env (windows s0 + 5 * n) 5) (int (T n))"
    using t'(5) t(3,4,5) by simp
  also have "\<dots> = int (T n) + int (pass_ticks env (windows s0 + 5 * n) 5)"
    using n N by (intro inc16_pow) (simp_all add: TS)
  finally have c: "currentStep t' = int N" using n(2) by (simp add: TS)
  have "\<not> (of_int (currentStep t') :: rat) < totalMotorSteps t"
    by (simp add: c pl(3))
  with b have "motionControl_body env q t = Exit Completed t'" by simp
  then have "motionControl_passes env (Suc n) p s0 = Exit Completed t'"
    by (simp only: motionControl_passes_Suc t(1) step_result.case)
  moreover have "same_plan s0 t'" using t(2) t'(1) by (rule same_plan_trans)
  ultimately show ?thesis using c t'(4) t(6) by auto
qed

lemma dotDistance_500: "trunc (500 / rat_of_int dotSteps) = 31"
  by code_simp

lemma motionControl_Some:
  assumes "motionControl env s = Some r"
  shows "\<exists>n. case r of
           Inr (oc, u) \<Rightarrow> (\<exists>t. motionControl_passes env n 0 (motionControl_setup s) = Exit oc t \<and>
                              u = MsTimer2_stop (service env t))
         | Inl f \<Rightarrow> motionControl_passes env n 0 (motionControl_setup s) = Fault f"
proof -
  from assms obtain r0 where
    l: "motionControl_loop env 0 (motionControl_setup s) = Some r0"
    and r: "r = (case r0 of Inl f \<Rightarrow> Inl f
                 | Inr (oc, t) \<Rightarrow> Inr (oc, MsTimer2_stop (service env t)))"
    by (auto simp add: motionControl_def motionControl_run_def
        split: option.splits sum.splits prod.splits)
  from motionControl_loop_result [OF l] obtain n where
    n: "case r0 of Inr (oc, t) \<Rightarrow> motionControl_passes env n 0 (motionControl_setup s) = Exit oc t
        | Inl f \<Rightarrow> motionControl_passes env n 0 (motionControl_setup s) = Fault f" ..
  have "case r of
           Inr (oc, u) \<Rightarrow> (\<exists>t. motionControl_passes env n 0 (motionControl_setup s) = Exit oc t \<and>
                              u = MsTimer2_stop (service env t))
         | Inl f \<Rightarrow> motionControl_passes env n 0 (motionControl_setup s) = Fault f"
    using n r by (auto split: sum.splits prod.splits)
  then show ?thesis ..
qed

lemma motionControl_completes:
  "motionControl_passes env n 0 (motionControl_setup s) = Exit oc t \<Longrightarrow>
     motionControl env s = Some (Inr (oc, MsTimer2_stop (service env t)))"
  by (simp add: motionControl_def motionControl_run_def motionControl_loop_passes)

text \<open>
  Claim C5. With distance 100, duration 10 and 0 steps: the plan has 500 motor steps and a
  pulse delay of 20 ms; the camera is never fired, after any number of passes and at the end
  of the run; the loop goes on only while the counter read by the \<open>while\<close> test is below
  500 and ends as completed only with a counter of at least 500, never with a fault; and
  when Select is never read, at most one timer period elapses per pass and the timer keeps
  firing, the run does end, as completed, with the counter at exactly 500.
\<close>

theorem video_mode_run:
  assumes d: "currentDistanceInt s = 100" "currentDurationInt s = 10" "currentStepsInt s = 0"
  shows "totalMotorSteps (motionControl_setup s) = 500 \<and>
    pulseDelay (motionControl_setup s) = Some 20 \<and>
    (\<forall>n. case motionControl_passes env n 0 (motionControl_setup s) of
           Continue q t \<Rightarrow> shutter_count (trace t) = shutter_count (trace s) \<and>
             (0 < n \<longrightarrow> currentStep t < 500)
         | Exit oc t \<Rightarrow> shutter_count (trace t) = shutter_count (trace s) \<and>
             (oc = Completed \<longrightarrow> 500 \<le> currentStep t)
         | Fault f \<Rightarrow> False) \<and>
    (\<forall>r. motionControl env s = Some r \<longrightarrow>
       (\<exists>n oc t. motionControl_passes env n 0 (motionControl_setup s) = Exit oc t \<and>
          r = Inr (oc, MsTimer2_stop (service env t)) \<and>
          shutter_count (trace (MsTimer2_stop (service env t))) = shutter_count (trace s))) \<and>
    ((\<forall>k. \<not> (650 \<le> adc env k \<and> adc env k < 850)) \<and>
     (\<forall>m. pass_ticks env (windows s + 5 * m) 5 \<le> 1) \<and>
     (\<forall>k. \<exists>m\<ge>k. 0 < pass_ticks env (windows s + 5 * m) 5) \<longrightarrow>
       (\<exists>n t. motionControl_passes env n 0 (motionControl_setup s) = Exit Completed t \<and>
          currentStep t = 500 \<and>
          motionControl env s = Some (Inr (Completed, MsTimer2_stop (service env t)))))"
proof -
  let ?s0 = "motionControl_setup s"
  have tot: "totalMotorSteps ?s0 = 500" and pd: "pulseDelay ?s0 = Some 20"
    and dd: "dotDistance ?s0 = 31" and st: "currentStepsInt ?s0 = 0"
    and c0: "currentStep ?s0 = 0" and tr: "timerRunning ?s0"
    and w0: "windows ?s0 = windows s"
    and sc: "shutter_count (trace ?s0) = shutter_count (trace s)"
    using d by (simp_all add: motionControl_setup_fields fdiv_def dotDistance_500)
  have dd0: "dotDistance ?s0 \<noteq> 0" using dd by simp
  have passes: "case motionControl_passes env n 0 ?s0 of
           Continue q t \<Rightarrow> shutter_count (trace t) = shutter_count (trace s) \<and>
             (0 < n \<longrightarrow> currentStep t < 500)
         | Exit oc t \<Rightarrow> shutter_count (trace t) = shutter_count (trace s) \<and>
             (oc = Completed \<longrightarrow> 500 \<le> currentStep t)
         | Fault f \<Rightarrow> False" for n
    using motionControl_passes_video [OF st dd0, where env = env and n = n and p = 0]
    by (auto simp add: tot sc split: step_result.splits)
  have whole: "\<exists>n oc t. motionControl_passes env n 0 ?s0 = Exit oc t \<and>
          r = Inr (oc, MsTimer2_stop (service env t)) \<and>
          shutter_count (trace (MsTimer2_stop (service env t))) = shutter_count (trace s)"
    if "motionControl env s = Some r" for r
  proof -
    from motionControl_Some [OF that] obtain n where
      n: "case r of
           Inr (oc, u) \<Rightarrow> (\<exists>t. motionControl_passes env n 0 ?s0 = Exit oc t \<and>
                              u = MsTimer2_stop (service env t))
         | Inl f \<Rightarrow> motionControl_passes env n 0 ?s0 = Fault f" ..
    show ?thesis
    proof (cases r)
      case (Inl f)
      with n have "motionControl_passes env n 0 ?s0 = Fault f" by simp
      with passes [of n] show ?thesis by simp
    next
      case (Inr x)
      obtain oc u where x: "x = (oc, u)" by (cases x)
      with n Inr obtain t where t: "motionControl_passes env n 0 ?s0 = Exit oc t"
        "u = MsTimer2_stop (service env t)"
        by auto
      from passes [of n] t(1) have "shutter_count (trace t) = shutter_count (trace s)"
        by simp
      then have "shutter_count (trace (MsTimer2_stop (service env t))) = shutter_count (trace s)"
        by (simp add: MsTimer2_stop_fields shutter_count_Cons service_fields(7))
      with t Inr x show ?thesis by blast
    qed
  qed
  have live: "\<exists>n t. motionControl_passes env n 0 ?s0 = Exit Completed t \<and>
          currentStep t = 500 \<and>
          motionControl env s = Some (Inr (Completed, MsTimer2_stop (service env t)))"
    if ns: "\<forall>k. \<not> (650 \<le> adc env k \<and> adc env k < 850)"
      and h2: "\<forall>m. pass_ticks env (windows s + 5 * m) 5 \<le> 1"
      and h3: "\<forall>k. \<exists>m\<ge>k. 0 < pass_ticks env (windows s + 5 * m) 5"
  proof -
    have tot': "totalMotorSteps ?s0 = of_nat 500" using tot by simp
    have N: "(0::nat) < 500" "(500::nat) < 32000" by simp_all
    note h2' = h2 [folded w0] and h3' = h3 [folded w0]
    from video_run_completes [OF st dd0 tr c0 tot' N ns h2' h3', where p = 0]
    obtain n t where t: "motionControl_passes env (Suc n) 0 ?s0 = Exit Completed t"
      "currentStep t = int 500"
      by blast
    from t(2) have c: "currentStep t = 500" by simp
    from motionControl_completes [OF t(1)] t(1) c show ?thesis by blast
  qed
  show ?thesis
  proof (intro conjI)
    show "totalMotorSteps ?s0 = 500" by (rule tot)
    show "pulseDelay ?s0 = Some 20" by (rule pd)
    show "\<forall>n. case motionControl_passes env n 0 ?s0 of
           Continue q t \<Rightarrow> shutter_count (trace t) = shutter_count (trace s) \<and>
             (0 < n \<longrightarrow> currentStep t < 500)
         | Exit oc t \<Rightarrow> shutter_count (trace t) = shutter_count (trace s) \<and>
             (oc = Completed \<longrightarrow> 500 \<le> currentStep t)
         | Fault f \<Rightarrow> False"
      by (intro allI passes)
    show "\<forall>r. motionControl env s = Some r \<longrightarrow>
       (\<exists>n oc t. motionControl_passes env n 0 ?s0 = Exit oc t \<and>
          r = Inr (oc, MsTimer2_stop (service env t)) \<and>
          shutter_count (trace (MsTimer2_stop (service env t))) = shutter_count (trace s))"
      by (intro allI impI whole)
    show "(\<forall>k. \<not> (650 \<le> adc env k \<and> adc env k < 850)) \<and>
     (\<forall>m. pass_ticks env (windows s + 5 * m) 5 \<le> 1) \<and>
     (\<forall>k. \<exists>m\<ge>k. 0 < pass_ticks env (windows s + 5 * m) 5) \<longrightarrow>
       (\<exists>n t. motionControl_passes env n 0 ?s0 = Exit Completed t \<and>
          currentStep t = 500 \<and>
          motionControl env s = Some (Inr (Completed, MsTimer2_stop (service env t))))"
    proof
      assume a: "(\<forall>k. \<not> (650 \<le> adc env k \<and> adc env k < 850)) \<and>
        (\<forall>m. pass_ticks env (windows s + 5 * m) 5 \<le> 1) \<and>
        (\<forall>k. \<exists>m\<ge>k. 0 < pass_ticks env (windows s + 5 * m) 5)"
      show "\<exists>n t. motionControl_passes env n 0 ?s0 = Exit Completed t \<and>
          currentStep t = 500 \<and>
          motionControl env s = Some (Inr (Completed, MsTimer2_stop (service env t)))"
        by (rule live) (use a in blast)+
    qed
  qed
qed

theorem video_mode_run_witness:
  "currentDistanceInt (run_state 100 10 0) = 100 \<and>
   currentDurationInt (run_state 100 10 0) = 10 \<and>
   currentStepsInt (run_state 100 10 0) = 0 \<and>
   totalMotorSteps (motionControl_setup (run_state 100 10 0)) = 500 \<and>
   pulseDelay (motionControl_setup (run_state 100 10 0)) = Some 20 \<and>
   (\<exists>n t. motionControl_passes env_idle_ticking n 0 (motionControl_setup (run_state 100 10 0))
             = Exit Completed t \<and>
          currentStep t = 500 \<and> shutter_count (trace t) = 0 \<and>
          motionControl env_idle_ticking (run_state 100 10 0)
             = Some (Inr (Completed, MsTimer2_stop (service env_idle_ticking t))))"
proof -
  have d: "currentDistanceInt (run_state 100 10 0) = 100"
    "currentDurationInt (run_state 100 10 0) = 10"
    "currentStepsInt (run_state 100 10 0) = 0"
    by (simp_all add: run_state_def)
  have w: "windows (run_state 100 10 0) = 0" "trace (run_state 100 10 0) = []"
    by (simp_all add: run_state_def initial_state_def)
  have ns: "\<forall>k. \<not> (650 \<le> adc env_idle_ticking k \<and> adc env_idle_ticking k < 850)"
    by (simp add: env_idle_ticking_def)
  have pt: "pass_ticks env_idle_ticking (5 * m) 5 = 1" for m
    by (simp add: pass_ticks_5 pass_ticks_4 env_idle_ticking_def mod_Suc)
  have h2: "\<forall>m. pass_ticks env_idle_ticking (windows (run_state 100 10 0) + 5 * m) 5 \<le> 1"
    by (simp add: w pt)
  have h3: "\<forall>k. \<exists>m\<ge>k. 0 < pass_ticks env_idle_ticking (windows (run_state 100 10 0) + 5 * m) 5"
    by (auto simp add: w pt)
  note vm = video_mode_run [OF d, where env = env_idle_ticking]
  note pl = vm [THEN conjunct1] vm [THEN conjunct2, THEN conjunct1]
  note p = vm [THEN conjunct2, THEN conjunct2, THEN conjunct1]
  note live = vm [THEN conjunct2, THEN conjunct2, THEN conjunct2, THEN conjunct2]
  from ns h2 h3 have "(\<forall>k. \<not> (650 \<le> adc env_idle_ticking k \<and> adc env_idle_ticking k < 850)) \<and>
     (\<forall>m. pass_ticks env_idle_ticking (windows (run_state 100 10 0) + 5 * m) 5 \<le> 1) \<and>
     (\<forall>k. \<exists>m\<ge>k. 0 < pass_ticks env_idle_ticking (windows (run_state 100 10 0) + 5 * m) 5)"
    by (intro conjI)
  from live [rule_format, OF this] obtain n t where
    t: "motionControl_passes env_idle_ticking n 0 (motionControl_setup (run_state 100 10 0))
          = Exit Completed t"
      "currentStep t = 500"
      "motionControl env_idle_ticking (run_state 100 10 0)
          = Some (Inr (Completed, MsTimer2_stop (service env_idle_ticking t)))"
    by blast
  from spec [OF p, of n] t(1) have sc: "shutter_count (trace t) = 0"
    by (simp add: w shutter_count_def)
  from d pl t sc show ?thesis by (intro conjI exI [of _ n] exI [of _ t])
qed

end
